theory Spec2Isabelle
  imports Complex_Main
begin

section \<open>The data model\<close>

text \<open>
  The source is one TypeScript interface (\<open>CashAdvance\<close>) and the PostgreSQL schema of the
  application: five tables, an audit trigger on two of them, a reporting view and one seed
  row. The schema is embedded as a state (the tables, each a list of rows in insertion
  order) and as the single-row statements \<open>INSERT\<close>, \<open>UPDATE ... WHERE id = k\<close> and
  \<open>DELETE ... WHERE id = k\<close> on each table, each returning either the error PostgreSQL
  raises or the new state. A statement that raises changes nothing.

  Every SQL column is nullable unless a constraint says otherwise, so every column of a
  row is an \<open>option\<close> (\<open>None\<close> is \<open>NULL\<close>) and \<open>NOT NULL\<close> is checked where the row is
  written, like the other constraints. Identifiers of type \<open>UUID\<close> are only compared, and
  are natural numbers here; a numeric value is a rational number, which the column type
  \<open>NUMERIC(10,2)\<close> rounds to two decimals where a row is written; timestamps and dates
  are integers. The \<open>number\<close> of TypeScript is a rational as well (every finite double is
  one; \<open>NaN\<close> and the infinities are left out).
\<close>

type_synonym uuid = nat
type_synonym timestamptz = int
type_synonym date = int
type_synonym numeric = rat

subsection \<open>The interface \<open>CashAdvance\<close>\<close>

datatype Status = PENDING | APPROVED | REJECTED | PAID

record CashAdvance =
  ts_id :: string
  ts_employeeId :: string
  ts_amount :: numeric
  ts_reason :: string
  ts_status :: Status
  ts_createdAt :: timestamptz
  ts_approvedAt :: "timestamptz option"
  ts_approvedBy :: "string option"

fun status_text :: "Status \<Rightarrow> string" where
  "status_text PENDING = ''PENDING''"
| "status_text APPROVED = ''APPROVED''"
| "status_text REJECTED = ''REJECTED''"
| "status_text PAID = ''PAID''"

subsection \<open>The tables\<close>

record users_row =
  u_id :: "uuid option"
  u_username :: "string option"
  u_password_hash :: "string option"
  u_email :: "string option"
  u_role :: "string option"
  u_access_level :: "int option"
  u_created_at :: "timestamptz option"
  u_last_login :: "timestamptz option"
  u_is_active :: "bool option"

record employees_row =
  e_id :: "uuid option"
  e_user_id :: "uuid option"
  e_first_name :: "string option"
  e_last_name :: "string option"
  e_department :: "string option"
  e_supervisor_id :: "uuid option"
  e_hire_date :: "date option"
  e_phone_number :: "string option"
  e_address :: "string option"
  e_position :: "string option"
  e_salary_rate :: "numeric option"

record cash_advances_row =
  ca_id :: "uuid option"
  ca_employee_id :: "uuid option"
  ca_amount :: "numeric option"
  ca_purpose :: "string option"
  ca_status :: "string option"
  ca_created_at :: "timestamptz option"
  ca_updated_at :: "timestamptz option"
  ca_approved_by :: "uuid option"
  ca_approved_at :: "timestamptz option"
  ca_rejection_reason :: "string option"
  ca_payment_date :: "date option"
  ca_installment_period :: "int option"
  ca_monthly_deduction :: "numeric option"

record payments_row =
  p_id :: "uuid option"
  p_cash_advance_id :: "uuid option"
  p_amount :: "numeric option"
  p_payment_date :: "timestamptz option"
  p_payment_type :: "string option"
  p_reference_number :: "string option"
  p_recorded_by :: "uuid option"

text \<open>
  A \<open>JSONB\<close> value as \<open>row_to_json\<close> builds it: an object with one member per column, in
  column order. PostgreSQL writes identifiers, timestamps and dates as JSON strings and
  numerics as JSON numbers; the members keep their typed value here.
\<close>

datatype json =
  JNull | JUuid uuid | JText string | JNumeric numeric | JInteger int
  | JTimestamp timestamptz | JDate date | JBool bool

type_synonym jsonb = "(string \<times> json) list"

record audit_logs_row =
  al_id :: "uuid option"
  al_user_id :: "uuid option"
  al_action :: "string option"
  al_entity_type :: "string option"
  al_entity_id :: "uuid option"
  al_old_values :: "jsonb option"
  al_new_values :: "jsonb option"
  al_ip_address :: "string option"
  al_created_at :: "timestamptz option"

record db =
  users :: "users_row list"
  employees :: "employees_row list"
  cash_advances :: "cash_advances_row list"
  payments :: "payments_row list"
  audit_logs :: "audit_logs_row list"

definition empty_db :: db where
  "empty_db = \<lparr>users = [], employees = [], cash_advances = [], payments = [], audit_logs = []\<rparr>"

subsection \<open>What the server supplies to a statement\<close>

text \<open>
  \<open>current_user_id\<close> is \<open>current_setting('app.current_user_id', true)\<close>, \<open>NULL\<close> when the
  setting is missing; \<open>uuid_in\<close> is the cast of a text to \<open>uuid\<close>, which fails on a text
  that is no identifier; \<open>current_timestamp\<close> is \<open>CURRENT_TIMESTAMP\<close>;
  \<open>uuid_generate_v4\<close> is the sequence of values \<open>uuid_generate_v4()\<close> returns during the
  statement: the default \<open>id\<close> of an inserted row takes element \<open>0\<close>, the audit entries
  take the elements from \<open>1\<close> on.
\<close>

record env =
  current_user_id :: "string option"
  uuid_in :: "string \<Rightarrow> uuid option"
  current_timestamp :: timestamptz
  uuid_generate_v4 :: "nat \<Rightarrow> uuid"

datatype db_error =
  StringTooLong
  | NumericOverflow
  | IntegerOutOfRange
  | InvalidUuid
  | NotNullViolation string
  | CheckViolation string
  | UniqueViolation string
  | ForeignKeyViolation string

definition and_then :: "'e + 'a \<Rightarrow> ('a \<Rightarrow> 'e + 'b) \<Rightarrow> 'e + 'b" where
  "and_then m f = (case m of Inl e \<Rightarrow> Inl e | Inr a \<Rightarrow> f a)"

subsection \<open>Column types\<close>

text \<open>
  \<open>VARCHAR(n)\<close>: a longer text is an error unless only spaces are cut off.
  \<open>NUMERIC(10,2)\<close>: the value is rounded to two decimals, a tie away from zero, and the
  rounded value must have at most eight digits before the point. \<open>INTEGER\<close>: 32 bits,
  signed.
\<close>

definition varchar :: "nat \<Rightarrow> string option \<Rightarrow> db_error + string option" where
  "varchar n v =
     (case v of
        None \<Rightarrow> Inr None
      | Some s \<Rightarrow>
          if length s \<le> n then Inr (Some s)
          else if list_all (\<lambda>c. c = CHR '' '') (drop n s) then Inr (Some (take n s))
          else Inl StringTooLong)"

definition round_half_away :: "rat \<Rightarrow> int" where
  "round_half_away x = (if 0 \<le> x then \<lfloor>x + 1 / 2\<rfloor> else - \<lfloor>- x + 1 / 2\<rfloor>)"

definition round_scale_2 :: "numeric \<Rightarrow> numeric" where
  "round_scale_2 x = of_int (round_half_away (x * 100)) / 100"

definition numeric_10_2 :: "numeric option \<Rightarrow> db_error + numeric option" where
  "numeric_10_2 v =
     (case v of
        None \<Rightarrow> Inr None
      | Some x \<Rightarrow>
          if \<bar>round_scale_2 x\<bar> < 10 ^ 8 then Inr (Some (round_scale_2 x))
          else Inl NumericOverflow)"

definition integer :: "int option \<Rightarrow> db_error + int option" where
  "integer v =
     (case v of
        None \<Rightarrow> Inr None
      | Some x \<Rightarrow> if - (2 ^ 31) \<le> x \<and> x < 2 ^ 31 then Inr (Some x) else Inl IntegerOutOfRange)"

definition coalesce :: "'a option \<Rightarrow> 'a option \<Rightarrow> 'a option" where
  "coalesce a b = (case a of None \<Rightarrow> b | Some x \<Rightarrow> Some x)"

text \<open>A \<open>CHECK (c IN (...))\<close> passes when \<open>c\<close> is \<open>NULL\<close>: the condition is then unknown, not false.\<close>

definition check_in :: "string option \<Rightarrow> string list \<Rightarrow> bool" where
  "check_in v allowed = (case v of None \<Rightarrow> True | Some s \<Rightarrow> s \<in> set allowed)"

text \<open>A foreign key is satisfied by \<open>NULL\<close> and by the key of a row of the referenced table.\<close>

definition references :: "uuid option \<Rightarrow> uuid option list \<Rightarrow> bool" where
  "references v keys = (case v of None \<Rightarrow> True | Some k \<Rightarrow> Some k \<in> set keys)"


section \<open>The audit log\<close>

text \<open>
  \<open>audit_logs\<close> has no trigger of its own. A row is written with its constraints checked:
  the two \<open>VARCHAR(50)\<close> columns and \<open>ip_address\<close> by length, the primary key, the two
  \<open>NOT NULL\<close> columns, and the foreign key \<open>user_id\<close> into \<open>users\<close>.
\<close>

definition audit_logs_default :: "env \<Rightarrow> nat \<Rightarrow> audit_logs_row" where
  "audit_logs_default env n =
     \<lparr>al_id = Some (uuid_generate_v4 env n), al_user_id = None, al_action = None,
      al_entity_type = None, al_entity_id = None, al_old_values = None,
      al_new_values = None, al_ip_address = None,
      al_created_at = Some (current_timestamp env)\<rparr>"

definition coerce_audit_logs :: "audit_logs_row \<Rightarrow> db_error + audit_logs_row" where
  "coerce_audit_logs r =
     and_then (varchar 50 (al_action r)) (\<lambda>action.
     and_then (varchar 50 (al_entity_type r)) (\<lambda>entity_type.
     and_then (varchar 45 (al_ip_address r)) (\<lambda>ip_address.
       Inr (r\<lparr>al_action := action, al_entity_type := entity_type,
              al_ip_address := ip_address\<rparr>))))"

definition insert_audit_logs :: "audit_logs_row \<Rightarrow> db \<Rightarrow> db_error + db" where
  "insert_audit_logs r db =
     and_then (coerce_audit_logs r) (\<lambda>row.
       if al_id row = None then Inl (NotNullViolation ''id'')
       else if al_action row = None then Inl (NotNullViolation ''action'')
       else if al_entity_type row = None then Inl (NotNullViolation ''entity_type'')
       else if al_id row \<in> set (map al_id (audit_logs db)) then Inl (UniqueViolation ''audit_logs_pkey'')
       else if \<not> references (al_user_id row) (map u_id (users db))
         then Inl (ForeignKeyViolation ''audit_logs_user_id_fkey'')
       else Inr (db\<lparr>audit_logs := audit_logs db @ [row]\<rparr>))"

subsection \<open>\<open>row_to_json\<close> on the two audited tables\<close>

definition nullable :: "('a \<Rightarrow> json) \<Rightarrow> 'a option \<Rightarrow> json" where
  "nullable f v = (case v of None \<Rightarrow> JNull | Some x \<Rightarrow> f x)"

definition employees_to_json :: "employees_row \<Rightarrow> jsonb" where
  "employees_to_json r =
     [(''id'', nullable JUuid (e_id r)),
      (''user_id'', nullable JUuid (e_user_id r)),
      (''first_name'', nullable JText (e_first_name r)),
      (''last_name'', nullable JText (e_last_name r)),
      (''department'', nullable JText (e_department r)),
      (''supervisor_id'', nullable JUuid (e_supervisor_id r)),
      (''hire_date'', nullable JDate (e_hire_date r)),
      (''phone_number'', nullable JText (e_phone_number r)),
      (''address'', nullable JText (e_address r)),
      (''position'', nullable JText (e_position r)),
      (''salary_rate'', nullable JNumeric (e_salary_rate r))]"

definition cash_advances_to_json :: "cash_advances_row \<Rightarrow> jsonb" where
  "cash_advances_to_json r =
     [(''id'', nullable JUuid (ca_id r)),
      (''employee_id'', nullable JUuid (ca_employee_id r)),
      (''amount'', nullable JNumeric (ca_amount r)),
      (''purpose'', nullable JText (ca_purpose r)),
      (''status'', nullable JText (ca_status r)),
      (''created_at'', nullable JTimestamp (ca_created_at r)),
      (''updated_at'', nullable JTimestamp (ca_updated_at r)),
      (''approved_by'', nullable JUuid (ca_approved_by r)),
      (''approved_at'', nullable JTimestamp (ca_approved_at r)),
      (''rejection_reason'', nullable JText (ca_rejection_reason r)),
      (''payment_date'', nullable JDate (ca_payment_date r)),
      (''installment_period'', nullable JInteger (ca_installment_period r)),
      (''monthly_deduction'', nullable JNumeric (ca_monthly_deduction r))]"

datatype audited_row = Employees_row employees_row | Cash_advances_row cash_advances_row

fun row_id :: "audited_row \<Rightarrow> uuid option" where
  "row_id (Employees_row r) = e_id r"
| "row_id (Cash_advances_row r) = ca_id r"

fun row_to_json :: "audited_row \<Rightarrow> jsonb" where
  "row_to_json (Employees_row r) = employees_to_json r"
| "row_to_json (Cash_advances_row r) = cash_advances_to_json r"

subsection \<open>\<open>audit_trigger_function\<close>\<close>

text \<open>
  The trigger function, for one row. \<open>OLD\<close> is \<open>NULL\<close> in an insert and \<open>NEW\<close> in a
  delete; a field of a \<open>NULL\<close> record is \<open>NULL\<close>. The cast of the setting to \<open>uuid\<close> comes
  first and raises on a text that is no identifier. The second argument says which value
  of \<open>uuid_generate_v4\<close> the new entry's \<open>id\<close> takes.
\<close>

definition audit_trigger_function ::
  "env \<Rightarrow> nat \<Rightarrow> string \<Rightarrow> string \<Rightarrow> audited_row option \<Rightarrow> audited_row option \<Rightarrow> db
     \<Rightarrow> db_error + db" where
  "audit_trigger_function env n TG_OP TG_TABLE_NAME OLD NEW db =
     and_then
       (case current_user_id env of
          None \<Rightarrow> Inr None
        | Some s \<Rightarrow> (case uuid_in env s of None \<Rightarrow> Inl InvalidUuid | Some u \<Rightarrow> Inr (Some u)))
       (\<lambda>user_id.
          insert_audit_logs
            ((audit_logs_default env n)
               \<lparr>al_user_id := user_id,
                al_action := Some TG_OP,
                al_entity_type := Some TG_TABLE_NAME,
                al_entity_id := coalesce (Option.bind NEW row_id) (Option.bind OLD row_id),
                al_old_values :=
                  (if TG_OP = ''DELETE'' then map_option row_to_json OLD else None),
                al_new_values :=
                  (if TG_OP \<in> set [''INSERT'', ''UPDATE''] then map_option row_to_json NEW
                   else None)\<rparr>)
            db)"

section \<open>The statements on each table\<close>

text \<open>
  PostgreSQL checks a written row in this order: the column types, \<open>NOT NULL\<close> and \<open>CHECK\<close>,
  the unique indexes, and then the row's \<open>AFTER\<close> triggers in the order of their names. The
  triggers of the foreign keys are named \<open>RI_ConstraintTrigger_a_\<close>\<open>n\<close> (on the referenced
  table) and \<open>RI_ConstraintTrigger_c_\<close>\<open>n\<close> (on the referencing table), \<open>n\<close> growing in
  the order in which the constraints were created, so they run before \<open>cash_advances_audit\<close>
  and \<open>employees_audit\<close>, and among themselves in the order of the schema. An insert is
  given the whole row, the omitted columns filled from the table's defaults; an update is
  given the key and its \<open>SET\<close> clause as a function on the row. An update or delete whose
  key matches no row succeeds and changes nothing. The column types are applied to the
  whole new row; on a column the \<open>SET\<close> clause leaves alone this changes nothing, since a
  stored value is of its column's type already (\<open>round_scale_2_idem\<close> for the numerics).
\<close>

subsection \<open>\<open>users\<close>\<close>

definition users_default :: "env \<Rightarrow> users_row" where
  "users_default env =
     \<lparr>u_id = Some (uuid_generate_v4 env 0), u_username = None, u_password_hash = None,
      u_email = None, u_role = None, u_access_level = Some 1,
      u_created_at = Some (current_timestamp env), u_last_login = None,
      u_is_active = Some True\<rparr>"

definition coerce_users :: "users_row \<Rightarrow> db_error + users_row" where
  "coerce_users r =
     and_then (varchar 50 (u_username r)) (\<lambda>username.
     and_then (varchar 100 (u_email r)) (\<lambda>email.
     and_then (varchar 20 (u_role r)) (\<lambda>role.
     and_then (integer (u_access_level r)) (\<lambda>access_level.
       Inr (r\<lparr>u_username := username, u_email := email, u_role := role,
              u_access_level := access_level\<rparr>)))))"

definition users_constraints :: "users_row \<Rightarrow> users_row list \<Rightarrow> db_error option" where
  "users_constraints r others =
     (if u_id r = None then Some (NotNullViolation ''id'')
      else if u_username r = None then Some (NotNullViolation ''username'')
      else if u_password_hash r = None then Some (NotNullViolation ''password_hash'')
      else if u_email r = None then Some (NotNullViolation ''email'')
      else if u_role r = None then Some (NotNullViolation ''role'')
      else if u_access_level r = None then Some (NotNullViolation ''access_level'')
      else if \<not> check_in (u_role r) [''ADMIN'', ''SUPERVISOR'', ''EMPLOYEE'']
        then Some (CheckViolation ''users_role_check'')
      else if u_id r \<in> set (map u_id others) then Some (UniqueViolation ''users_pkey'')
      else if u_username r \<in> set (map u_username others)
        then Some (UniqueViolation ''users_username_key'')
      else if u_email r \<in> set (map u_email others) then Some (UniqueViolation ''users_email_key'')
      else None)"

text \<open>The foreign keys into \<open>users\<close>, all \<open>NO ACTION\<close>: the first one that a row still uses.\<close>

definition users_referenced :: "uuid \<Rightarrow> db \<Rightarrow> db_error option" where
  "users_referenced k db =
     (if Some k \<in> set (map e_user_id (employees db))
        then Some (ForeignKeyViolation ''employees_user_id_fkey'')
      else if Some k \<in> set (map ca_approved_by (cash_advances db))
        then Some (ForeignKeyViolation ''cash_advances_approved_by_fkey'')
      else if Some k \<in> set (map p_recorded_by (payments db))
        then Some (ForeignKeyViolation ''payments_recorded_by_fkey'')
      else if Some k \<in> set (map al_user_id (audit_logs db))
        then Some (ForeignKeyViolation ''audit_logs_user_id_fkey'')
      else None)"

definition insert_users :: "users_row \<Rightarrow> db \<Rightarrow> db_error + db" where
  "insert_users r db =
     and_then (coerce_users r) (\<lambda>row.
       case users_constraints row (users db) of
         Some e \<Rightarrow> Inl e
       | None \<Rightarrow> Inr (db\<lparr>users := users db @ [row]\<rparr>))"

definition update_users :: "uuid \<Rightarrow> (users_row \<Rightarrow> users_row) \<Rightarrow> db \<Rightarrow> db_error + db" where
  "update_users k upd db =
     (case find (\<lambda>r. u_id r = Some k) (users db) of
        None \<Rightarrow> Inr db
      | Some old \<Rightarrow>
          and_then (coerce_users (upd old)) (\<lambda>row.
            case users_constraints row (filter (\<lambda>r. u_id r \<noteq> Some k) (users db)) of
              Some e \<Rightarrow> Inl e
            | None \<Rightarrow>
                (case (if u_id row = Some k then None else users_referenced k db) of
                   Some e \<Rightarrow> Inl e
                 | None \<Rightarrow>
                     Inr (db\<lparr>users := map (\<lambda>r. if u_id r = Some k then row else r) (users db)\<rparr>))))"

definition delete_users :: "uuid \<Rightarrow> db \<Rightarrow> db_error + db" where
  "delete_users k db =
     (case find (\<lambda>r. u_id r = Some k) (users db) of
        None \<Rightarrow> Inr db
      | Some old \<Rightarrow>
          (case users_referenced k db of
             Some e \<Rightarrow> Inl e
           | None \<Rightarrow> Inr (db\<lparr>users := filter (\<lambda>r. u_id r \<noteq> Some k) (users db)\<rparr>)))"


subsection \<open>\<open>employees\<close>\<close>

text \<open>
  The column \<open>supervisor_id\<close> carries two foreign keys into \<open>employees\<close>: the one written
  with the column, \<open>supervisor_id UUID REFERENCES employees(id)\<close> (PostgreSQL names it
  \<open>employees_supervisor_id_fkey\<close>; its action on delete is the default \<open>NO ACTION\<close>), and
  the table constraint \<open>fk_supervisor\<close> (\<open>ON DELETE SET NULL\<close>). PostgreSQL keeps both and
  gives each its own triggers; on the delete of an employee they fire in the order of
  their names, which is the order of creation: first the check of the column's
  constraint, which raises if a row still has the deleted employee as supervisor, and only
  then the action of \<open>fk_supervisor\<close>. The model keeps both, in this order.
\<close>

definition employees_default :: "env \<Rightarrow> employees_row" where
  "employees_default env =
     \<lparr>e_id = Some (uuid_generate_v4 env 0), e_user_id = None, e_first_name = None,
      e_last_name = None, e_department = None, e_supervisor_id = None, e_hire_date = None,
      e_phone_number = None, e_address = None, e_position = None, e_salary_rate = None\<rparr>"

definition coerce_employees :: "employees_row \<Rightarrow> db_error + employees_row" where
  "coerce_employees r =
     and_then (varchar 50 (e_first_name r)) (\<lambda>first_name.
     and_then (varchar 50 (e_last_name r)) (\<lambda>last_name.
     and_then (varchar 100 (e_department r)) (\<lambda>department.
     and_then (varchar 20 (e_phone_number r)) (\<lambda>phone_number.
     and_then (varchar 100 (e_position r)) (\<lambda>position.
     and_then (numeric_10_2 (e_salary_rate r)) (\<lambda>salary_rate.
       Inr (r\<lparr>e_first_name := first_name, e_last_name := last_name,
              e_department := department, e_phone_number := phone_number,
              e_position := position, e_salary_rate := salary_rate\<rparr>)))))))"

definition employees_constraints :: "employees_row \<Rightarrow> employees_row list \<Rightarrow> db_error option" where
  "employees_constraints r others =
     (if e_id r = None then Some (NotNullViolation ''id'')
      else if e_first_name r = None then Some (NotNullViolation ''first_name'')
      else if e_last_name r = None then Some (NotNullViolation ''last_name'')
      else if e_hire_date r = None then Some (NotNullViolation ''hire_date'')
      else if e_id r \<in> set (map e_id others) then Some (UniqueViolation ''employees_pkey'')
      else None)"

text \<open>The foreign keys of a written row, checked in the state that holds the row.\<close>

definition employees_foreign_keys :: "employees_row \<Rightarrow> db \<Rightarrow> db_error option" where
  "employees_foreign_keys r db =
     (if \<not> references (e_user_id r) (map u_id (users db))
        then Some (ForeignKeyViolation ''employees_user_id_fkey'')
      else if \<not> references (e_supervisor_id r) (map e_id (employees db))
        then Some (ForeignKeyViolation ''employees_supervisor_id_fkey'')
      else if \<not> references (e_supervisor_id r) (map e_id (employees db))
        then Some (ForeignKeyViolation ''fk_supervisor'')
      else None)"

text \<open>The foreign keys into \<open>employees\<close> that forbid changing a key that a row still uses.\<close>

definition employees_referenced :: "uuid \<Rightarrow> db \<Rightarrow> db_error option" where
  "employees_referenced k db =
     (if Some k \<in> set (map e_supervisor_id (employees db))
        then Some (ForeignKeyViolation ''employees_supervisor_id_fkey'')
      else if Some k \<in> set (map ca_employee_id (cash_advances db))
        then Some (ForeignKeyViolation ''cash_advances_employee_id_fkey'')
      else None)"

definition insert_employees :: "env \<Rightarrow> employees_row \<Rightarrow> db \<Rightarrow> db_error + db" where
  "insert_employees env r db =
     and_then (coerce_employees r) (\<lambda>row.
       case employees_constraints row (employees db) of
         Some e \<Rightarrow> Inl e
       | None \<Rightarrow>
           (let db1 = db\<lparr>employees := employees db @ [row]\<rparr> in
            case employees_foreign_keys row db1 of
              Some e \<Rightarrow> Inl e
            | None \<Rightarrow>
                audit_trigger_function env 1 ''INSERT'' ''employees''
                  None (Some (Employees_row row)) db1))"

definition update_employees ::
  "env \<Rightarrow> uuid \<Rightarrow> (employees_row \<Rightarrow> employees_row) \<Rightarrow> db \<Rightarrow> db_error + db" where
  "update_employees env k upd db =
     (case find (\<lambda>r. e_id r = Some k) (employees db) of
        None \<Rightarrow> Inr db
      | Some old \<Rightarrow>
          and_then (coerce_employees (upd old)) (\<lambda>row.
            case employees_constraints row (filter (\<lambda>r. e_id r \<noteq> Some k) (employees db)) of
              Some e \<Rightarrow> Inl e
            | None \<Rightarrow>
                (let db1 = db\<lparr>employees :=
                              map (\<lambda>r. if e_id r = Some k then row else r) (employees db)\<rparr> in
                 case (if e_id row = Some k then None else employees_referenced k db1) of
                   Some e \<Rightarrow> Inl e
                 | None \<Rightarrow>
                     (case employees_foreign_keys row db1 of
                        Some e \<Rightarrow> Inl e
                      | None \<Rightarrow>
                          audit_trigger_function env 1 ''UPDATE'' ''employees''
                            (Some (Employees_row old)) (Some (Employees_row row)) db1))))"

text \<open>
  The action of \<open>fk_supervisor\<close> on the delete of employee \<open>k\<close>:
  \<open>UPDATE employees SET supervisor_id = NULL WHERE supervisor_id = k\<close>, a statement of
  its own, so \<open>employees_audit\<close> runs for each row it changes.
\<close>

fun audit_updates :: "env \<Rightarrow> nat \<Rightarrow> employees_row list \<Rightarrow> db \<Rightarrow> db_error + db" where
  "audit_updates env n [] db = Inr db"
| "audit_updates env n (old # rest) db =
     and_then
       (audit_trigger_function env n ''UPDATE'' ''employees''
          (Some (Employees_row old)) (Some (Employees_row (old\<lparr>e_supervisor_id := None\<rparr>))) db)
       (audit_updates env (Suc n) rest)"

definition set_null_supervisor :: "env \<Rightarrow> uuid \<Rightarrow> db \<Rightarrow> db_error + db" where
  "set_null_supervisor env k db =
     audit_updates env 1 (filter (\<lambda>r. e_supervisor_id r = Some k) (employees db))
       (db\<lparr>employees :=
             map (\<lambda>r. if e_supervisor_id r = Some k then r\<lparr>e_supervisor_id := None\<rparr> else r)
               (employees db)\<rparr>)"

definition delete_employees :: "env \<Rightarrow> uuid \<Rightarrow> db \<Rightarrow> db_error + db" where
  "delete_employees env k db =
     (case find (\<lambda>r. e_id r = Some k) (employees db) of
        None \<Rightarrow> Inr db
      | Some old \<Rightarrow>
          (let db1 = db\<lparr>employees := filter (\<lambda>r. e_id r \<noteq> Some k) (employees db)\<rparr> in
           if Some k \<in> set (map e_supervisor_id (employees db1))
             then Inl (ForeignKeyViolation ''employees_supervisor_id_fkey'')
           else
             and_then (set_null_supervisor env k db1) (\<lambda>db2.
               if Some k \<in> set (map ca_employee_id (cash_advances db2))
                 then Inl (ForeignKeyViolation ''cash_advances_employee_id_fkey'')
               else
                 audit_trigger_function env
                   (Suc (length (filter (\<lambda>r. e_supervisor_id r = Some k) (employees db1))))
                   ''DELETE'' ''employees'' (Some (Employees_row old)) None db2)))"


subsection \<open>\<open>cash_advances\<close>\<close>

definition cash_advances_default :: "env \<Rightarrow> cash_advances_row" where
  "cash_advances_default env =
     \<lparr>ca_id = Some (uuid_generate_v4 env 0), ca_employee_id = None, ca_amount = None,
      ca_purpose = None, ca_status = Some ''PENDING'',
      ca_created_at = Some (current_timestamp env), ca_updated_at = None,
      ca_approved_by = None, ca_approved_at = None, ca_rejection_reason = None,
      ca_payment_date = None, ca_installment_period = None, ca_monthly_deduction = None\<rparr>"

definition coerce_cash_advances :: "cash_advances_row \<Rightarrow> db_error + cash_advances_row" where
  "coerce_cash_advances r =
     and_then (numeric_10_2 (ca_amount r)) (\<lambda>amount.
     and_then (varchar 20 (ca_status r)) (\<lambda>status.
     and_then (integer (ca_installment_period r)) (\<lambda>installment_period.
     and_then (numeric_10_2 (ca_monthly_deduction r)) (\<lambda>monthly_deduction.
       Inr (r\<lparr>ca_amount := amount, ca_status := status,
              ca_installment_period := installment_period,
              ca_monthly_deduction := monthly_deduction\<rparr>)))))"

definition cash_advances_constraints ::
  "cash_advances_row \<Rightarrow> cash_advances_row list \<Rightarrow> db_error option" where
  "cash_advances_constraints r others =
     (if ca_id r = None then Some (NotNullViolation ''id'')
      else if ca_employee_id r = None then Some (NotNullViolation ''employee_id'')
      else if ca_amount r = None then Some (NotNullViolation ''amount'')
      else if ca_purpose r = None then Some (NotNullViolation ''purpose'')
      else if ca_status r = None then Some (NotNullViolation ''status'')
      else if \<not> check_in (ca_status r) [''PENDING'', ''APPROVED'', ''REJECTED'', ''PAID'']
        then Some (CheckViolation ''cash_advances_status_check'')
      else if ca_id r \<in> set (map ca_id others) then Some (UniqueViolation ''cash_advances_pkey'')
      else None)"

definition cash_advances_foreign_keys :: "cash_advances_row \<Rightarrow> db \<Rightarrow> db_error option" where
  "cash_advances_foreign_keys r db =
     (if \<not> references (ca_employee_id r) (map e_id (employees db))
        then Some (ForeignKeyViolation ''cash_advances_employee_id_fkey'')
      else if \<not> references (ca_approved_by r) (map u_id (users db))
        then Some (ForeignKeyViolation ''cash_advances_approved_by_fkey'')
      else None)"

definition cash_advances_referenced :: "uuid \<Rightarrow> db \<Rightarrow> db_error option" where
  "cash_advances_referenced k db =
     (if Some k \<in> set (map p_cash_advance_id (payments db))
        then Some (ForeignKeyViolation ''payments_cash_advance_id_fkey'')
      else None)"

definition insert_cash_advances :: "env \<Rightarrow> cash_advances_row \<Rightarrow> db \<Rightarrow> db_error + db" where
  "insert_cash_advances env r db =
     and_then (coerce_cash_advances r) (\<lambda>row.
       case cash_advances_constraints row (cash_advances db) of
         Some e \<Rightarrow> Inl e
       | None \<Rightarrow>
           (let db1 = db\<lparr>cash_advances := cash_advances db @ [row]\<rparr> in
            case cash_advances_foreign_keys row db1 of
              Some e \<Rightarrow> Inl e
            | None \<Rightarrow>
                audit_trigger_function env 1 ''INSERT'' ''cash_advances''
                  None (Some (Cash_advances_row row)) db1))"

definition update_cash_advances ::
  "env \<Rightarrow> uuid \<Rightarrow> (cash_advances_row \<Rightarrow> cash_advances_row) \<Rightarrow> db \<Rightarrow> db_error + db" where
  "update_cash_advances env k upd db =
     (case find (\<lambda>r. ca_id r = Some k) (cash_advances db) of
        None \<Rightarrow> Inr db
      | Some old \<Rightarrow>
          and_then (coerce_cash_advances (upd old)) (\<lambda>row.
            case cash_advances_constraints row
                   (filter (\<lambda>r. ca_id r \<noteq> Some k) (cash_advances db)) of
              Some e \<Rightarrow> Inl e
            | None \<Rightarrow>
                (let db1 = db\<lparr>cash_advances :=
                              map (\<lambda>r. if ca_id r = Some k then row else r) (cash_advances db)\<rparr> in
                 case (if ca_id row = Some k then None else cash_advances_referenced k db1) of
                   Some e \<Rightarrow> Inl e
                 | None \<Rightarrow>
                     (case cash_advances_foreign_keys row db1 of
                        Some e \<Rightarrow> Inl e
                      | None \<Rightarrow>
                          audit_trigger_function env 1 ''UPDATE'' ''cash_advances''
                            (Some (Cash_advances_row old)) (Some (Cash_advances_row row)) db1))))"

definition delete_cash_advances :: "env \<Rightarrow> uuid \<Rightarrow> db \<Rightarrow> db_error + db" where
  "delete_cash_advances env k db =
     (case find (\<lambda>r. ca_id r = Some k) (cash_advances db) of
        None \<Rightarrow> Inr db
      | Some old \<Rightarrow>
          (let db1 = db\<lparr>cash_advances := filter (\<lambda>r. ca_id r \<noteq> Some k) (cash_advances db)\<rparr> in
           case cash_advances_referenced k db1 of
             Some e \<Rightarrow> Inl e
           | None \<Rightarrow>
               audit_trigger_function env 1 ''DELETE'' ''cash_advances''
                 (Some (Cash_advances_row old)) None db1))"

subsection \<open>\<open>payments\<close>\<close>

text \<open>\<open>payment_type\<close> has a \<open>CHECK\<close> but no \<open>NOT NULL\<close>; no trigger is attached to \<open>payments\<close>.\<close>

definition payments_default :: "env \<Rightarrow> payments_row" where
  "payments_default env =
     \<lparr>p_id = Some (uuid_generate_v4 env 0), p_cash_advance_id = None, p_amount = None,
      p_payment_date = Some (current_timestamp env), p_payment_type = None,
      p_reference_number = None, p_recorded_by = None\<rparr>"

definition coerce_payments :: "payments_row \<Rightarrow> db_error + payments_row" where
  "coerce_payments r =
     and_then (numeric_10_2 (p_amount r)) (\<lambda>amount.
     and_then (varchar 20 (p_payment_type r)) (\<lambda>payment_type.
     and_then (varchar 50 (p_reference_number r)) (\<lambda>reference_number.
       Inr (r\<lparr>p_amount := amount, p_payment_type := payment_type,
              p_reference_number := reference_number\<rparr>))))"

definition payments_constraints :: "payments_row \<Rightarrow> payments_row list \<Rightarrow> db_error option" where
  "payments_constraints r others =
     (if p_id r = None then Some (NotNullViolation ''id'')
      else if p_cash_advance_id r = None then Some (NotNullViolation ''cash_advance_id'')
      else if p_amount r = None then Some (NotNullViolation ''amount'')
      else if \<not> check_in (p_payment_type r) [''SALARY_DEDUCTION'', ''CASH'', ''BANK_TRANSFER'']
        then Some (CheckViolation ''payments_payment_type_check'')
      else if p_id r \<in> set (map p_id others) then Some (UniqueViolation ''payments_pkey'')
      else None)"

definition payments_foreign_keys :: "payments_row \<Rightarrow> db \<Rightarrow> db_error option" where
  "payments_foreign_keys r db =
     (if \<not> references (p_cash_advance_id r) (map ca_id (cash_advances db))
        then Some (ForeignKeyViolation ''payments_cash_advance_id_fkey'')
      else if \<not> references (p_recorded_by r) (map u_id (users db))
        then Some (ForeignKeyViolation ''payments_recorded_by_fkey'')
      else None)"

definition insert_payments :: "payments_row \<Rightarrow> db \<Rightarrow> db_error + db" where
  "insert_payments r db =
     and_then (coerce_payments r) (\<lambda>row.
       case payments_constraints row (payments db) of
         Some e \<Rightarrow> Inl e
       | None \<Rightarrow>
           (case payments_foreign_keys row db of
              Some e \<Rightarrow> Inl e
            | None \<Rightarrow> Inr (db\<lparr>payments := payments db @ [row]\<rparr>)))"

definition update_payments ::
  "uuid \<Rightarrow> (payments_row \<Rightarrow> payments_row) \<Rightarrow> db \<Rightarrow> db_error + db" where
  "update_payments k upd db =
     (case find (\<lambda>r. p_id r = Some k) (payments db) of
        None \<Rightarrow> Inr db
      | Some old \<Rightarrow>
          and_then (coerce_payments (upd old)) (\<lambda>row.
            case payments_constraints row (filter (\<lambda>r. p_id r \<noteq> Some k) (payments db)) of
              Some e \<Rightarrow> Inl e
            | None \<Rightarrow>
                (case payments_foreign_keys row db of
                   Some e \<Rightarrow> Inl e
                 | None \<Rightarrow>
                     Inr (db\<lparr>payments :=
                                map (\<lambda>r. if p_id r = Some k then row else r) (payments db)\<rparr>))))"

definition delete_payments :: "uuid \<Rightarrow> db \<Rightarrow> db_error + db" where
  "delete_payments k db = Inr (db\<lparr>payments := filter (\<lambda>r. p_id r \<noteq> Some k) (payments db)\<rparr>)"

section \<open>Statements, and the state after the schema script\<close>

datatype stmt =
  Insert_users users_row
  | Update_users uuid "users_row \<Rightarrow> users_row"
  | Delete_users uuid
  | Insert_employees employees_row
  | Update_employees uuid "employees_row \<Rightarrow> employees_row"
  | Delete_employees uuid
  | Insert_cash_advances cash_advances_row
  | Update_cash_advances uuid "cash_advances_row \<Rightarrow> cash_advances_row"
  | Delete_cash_advances uuid
  | Insert_payments payments_row
  | Update_payments uuid "payments_row \<Rightarrow> payments_row"
  | Delete_payments uuid

fun exec_stmt :: "env \<Rightarrow> stmt \<Rightarrow> db \<Rightarrow> db_error + db" where
  "exec_stmt env (Insert_users r) db = insert_users r db"
| "exec_stmt env (Update_users k upd) db = update_users k upd db"
| "exec_stmt env (Delete_users k) db = delete_users k db"
| "exec_stmt env (Insert_employees r) db = insert_employees env r db"
| "exec_stmt env (Update_employees k upd) db = update_employees env k upd db"
| "exec_stmt env (Delete_employees k) db = delete_employees env k db"
| "exec_stmt env (Insert_cash_advances r) db = insert_cash_advances env r db"
| "exec_stmt env (Update_cash_advances k upd) db = update_cash_advances env k upd db"
| "exec_stmt env (Delete_cash_advances k) db = delete_cash_advances env k db"
| "exec_stmt env (Insert_payments r) db = insert_payments r db"
| "exec_stmt env (Update_payments k upd) db = update_payments k upd db"
| "exec_stmt env (Delete_payments k) db = delete_payments k db"

text \<open>A statement in its own transaction: an error rolls it back and the state stays.\<close>

definition commit :: "'e + db \<Rightarrow> db \<Rightarrow> db" where
  "commit result db = (case result of Inl e \<Rightarrow> db | Inr db' \<Rightarrow> db')"

fun run :: "(env \<times> stmt) list \<Rightarrow> db \<Rightarrow> db" where
  "run [] db = db"
| "run ((env, s) # rest) db = run rest (commit (exec_stmt env s db) db)"

text \<open>
  The script creates the five tables, empty, and then inserts the administrator. Indexes
  change no result and are left out.
\<close>

definition administrator :: "env \<Rightarrow> users_row" where
  "administrator env =
     (users_default env)
       \<lparr>u_username := Some ''admin'',
        u_password_hash := Some ''$2a$12$LQv3c1yqBWVHxkd0LHAkCOYz6TtxMQJqhN8/LewdBPj6f.CbP0pqu'',
        u_email := Some ''admin@sakada.com'',
        u_role := Some ''ADMIN'',
        u_access_level := Some 10\<rparr>"

definition schema_init :: "env \<Rightarrow> db_error + db" where
  "schema_init env = insert_users (administrator env) empty_db"

section \<open>The view \<open>cash_advance_summary\<close>\<close>

record cash_advance_summary_row =
  s_id :: "uuid option"
  s_employee_name :: "string option"
  s_amount :: "numeric option"
  s_status :: "string option"
  s_created_at :: "timestamptz option"
  s_total_paid :: "numeric option"
  s_remaining_balance :: "numeric option"

text \<open>
  SQL's operators on nullable values: \<open>||\<close> and \<open>-\<close> are \<open>NULL\<close> when an operand is;
  \<open>SUM\<close> (here \<open>sum_agg\<close>) skips \<open>NULL\<close> inputs and is \<open>NULL\<close> when nothing is left; a comparison with \<open>NULL\<close>
  never holds in a join condition.
\<close>

definition concat_text :: "string option \<Rightarrow> string option \<Rightarrow> string option" where
  "concat_text a b = (case (a, b) of (Some x, Some y) \<Rightarrow> Some (x @ y) | _ \<Rightarrow> None)"

definition minus_numeric :: "numeric option \<Rightarrow> numeric option \<Rightarrow> numeric option" where
  "minus_numeric a b = (case (a, b) of (Some x, Some y) \<Rightarrow> Some (x - y) | _ \<Rightarrow> None)"

definition sum_agg :: "numeric option list \<Rightarrow> numeric option" where
  "sum_agg vs = (case List.map_filter (\<lambda>v. v) vs of [] \<Rightarrow> None | x # xs \<Rightarrow> Some (sum_list (x # xs)))"

definition sql_eq :: "uuid option \<Rightarrow> uuid option \<Rightarrow> bool" where
  "sql_eq a b = (case (a, b) of (Some x, Some y) \<Rightarrow> x = y | _ \<Rightarrow> False)"

text \<open>
  \<open>FROM cash_advances ca JOIN employees e ... LEFT JOIN payments p ...\<close>: the rows of the
  inner join, each with its matching payments, or once with a \<open>NULL\<close> payment if it has none.
\<close>

definition left_join_payments ::
  "db \<Rightarrow> cash_advances_row \<Rightarrow> employees_row
     \<Rightarrow> (cash_advances_row \<times> employees_row \<times> payments_row option) list" where
  "left_join_payments db ca e =
     (case filter (\<lambda>p. sql_eq (ca_id ca) (p_cash_advance_id p)) (payments db) of
        [] \<Rightarrow> [(ca, e, None)]
      | ps \<Rightarrow> map (\<lambda>p. (ca, e, Some p)) ps)"

definition joined :: "db \<Rightarrow> (cash_advances_row \<times> employees_row \<times> payments_row option) list" where
  "joined db =
     concat (map (\<lambda>ca.
       concat (map (left_join_payments db ca)
         (filter (\<lambda>e. sql_eq (ca_employee_id ca) (e_id e)) (employees db))))
       (cash_advances db))"

text \<open>
  \<open>GROUP BY ca.id, e.first_name, e.last_name\<close>: one output row for each distinct key (the
  view has no \<open>ORDER BY\<close>, so the order of its rows is open). The other columns of \<open>ca\<close> depend on its primary key and are
  read from the first row of the group.
\<close>

definition group_key ::
  "cash_advances_row \<times> employees_row \<times> payments_row option
     \<Rightarrow> uuid option \<times> string option \<times> string option" where
  "group_key j = (case j of (ca, e, p) \<Rightarrow> (ca_id ca, e_first_name e, e_last_name e))"

definition summary_of_group ::
  "(cash_advances_row \<times> employees_row \<times> payments_row option) list
     \<Rightarrow> cash_advance_summary_row list" where
  "summary_of_group g =
     (case g of
        [] \<Rightarrow> []
      | (ca, e, p) # rest \<Rightarrow>
          (let paid = sum_agg (map (\<lambda>j. case j of (ca', e', p') \<Rightarrow> Option.bind p' p_amount) g) in
           [\<lparr>s_id = ca_id ca,
             s_employee_name =
               concat_text (concat_text (e_first_name e) (Some '' '')) (e_last_name e),
             s_amount = ca_amount ca,
             s_status = ca_status ca,
             s_created_at = ca_created_at ca,
             s_total_paid = coalesce paid (Some 0),
             s_remaining_balance = minus_numeric (ca_amount ca) (coalesce paid (Some 0))\<rparr>]))"

definition cash_advance_summary :: "db \<Rightarrow> cash_advance_summary_row list" where
  "cash_advance_summary db =
     concat (map (\<lambda>k. summary_of_group (filter (\<lambda>j. group_key j = k) (joined db)))
       (remdups (map group_key (joined db))))"


section \<open>The service operations\<close>

text \<open>
  The sources hold no code of the operations \<open>submit\<close>, \<open>approve\<close>, \<open>reject\<close>, \<open>markPaid\<close>
  and \<open>recordPayment\<close>; the specification describes them (sections 4.1, 4.2 and 7). They
  are written here after its words, each as one transaction that reads the state, checks
  in the order the specification lists the conditions, and writes through the statements
  of the schema above, so that the constraints and the audit trigger apply to them. An
  error of the schema surfaces as \<open>ConstraintViolation\<close>.
\<close>

datatype error =
  ValidationError | NotFoundError | InvalidStateError | BalanceError
  | ConstraintViolation db_error

datatype PaymentType = SALARY_DEDUCTION | CASH | BANK_TRANSFER

fun payment_type_text :: "PaymentType \<Rightarrow> string" where
  "payment_type_text SALARY_DEDUCTION = ''SALARY_DEDUCTION''"
| "payment_type_text CASH = ''CASH''"
| "payment_type_text BANK_TRANSFER = ''BANK_TRANSFER''"

definition persist :: "db_error + db \<Rightarrow> error + db" where
  "persist result = (case result of Inl e \<Rightarrow> Inl (ConstraintViolation e) | Inr db' \<Rightarrow> Inr db')"

text \<open>The sum of the amounts of the payments of advance \<open>k\<close>.\<close>

definition total_paid :: "uuid \<Rightarrow> db \<Rightarrow> numeric" where
  "total_paid k db =
     sum_list (List.map_filter p_amount (filter (\<lambda>p. p_cash_advance_id p = Some k) (payments db)))"

text \<open>
  Modelled from the spec: \<open>submit(employeeId, amount, reason)\<close>, missing from the sources.
  "Validates employeeId exists and amount > 0; creates a CashAdvance in PENDING with
  createdAt = now. Fails with ValidationError if amount \<le> 0 or employee unknown."
\<close>

definition submit :: "env \<Rightarrow> uuid \<Rightarrow> numeric \<Rightarrow> string \<Rightarrow> db \<Rightarrow> error + db" where
  "submit env employeeId amount reason db =
     (if Some employeeId \<notin> set (map e_id (employees db)) \<or> amount \<le> 0 then Inl ValidationError
      else
        persist (insert_cash_advances env
          ((cash_advances_default env)
             \<lparr>ca_employee_id := Some employeeId,
              ca_amount := Some amount,
              ca_purpose := Some reason,
              ca_status := Some (status_text PENDING),
              ca_created_at := Some (current_timestamp env)\<rparr>)
          db))"

text \<open>
  Modelled from the spec: \<open>approve(advanceId, approverId, installmentPeriod?, monthlyDeduction?)\<close>,
  missing from the sources. "Permitted only from PENDING; sets status = APPROVED,
  approvedBy = approverId, approvedAt = now, and optionally records installment terms.
  Fails with InvalidStateError if current status is not PENDING; fails with NotFoundError
  if advanceId unknown."
\<close>

definition approve ::
  "env \<Rightarrow> uuid \<Rightarrow> uuid \<Rightarrow> int option \<Rightarrow> numeric option \<Rightarrow> db \<Rightarrow> error + db" where
  "approve env advanceId approverId installmentPeriod monthlyDeduction db =
     (case find (\<lambda>r. ca_id r = Some advanceId) (cash_advances db) of
        None \<Rightarrow> Inl NotFoundError
      | Some ca \<Rightarrow>
          if ca_status ca \<noteq> Some (status_text PENDING) then Inl InvalidStateError
          else
            persist (update_cash_advances env advanceId
              (\<lambda>r. r\<lparr>ca_status := Some (status_text APPROVED),
                      ca_approved_by := Some approverId,
                      ca_approved_at := Some (current_timestamp env),
                      ca_installment_period := coalesce installmentPeriod (ca_installment_period r),
                      ca_monthly_deduction := coalesce monthlyDeduction (ca_monthly_deduction r)\<rparr>)
              db))"

text \<open>
  Modelled from the spec: \<open>reject(advanceId, approverId, reason)\<close>, missing from the
  sources. "Permitted only from PENDING; sets status = REJECTED, rejection_reason =
  reason, approvedBy/approvedAt recorded as the acting user/time. Fails with
  InvalidStateError otherwise."
\<close>

definition reject :: "env \<Rightarrow> uuid \<Rightarrow> uuid \<Rightarrow> string \<Rightarrow> db \<Rightarrow> error + db" where
  "reject env advanceId approverId reason db =
     (case find (\<lambda>r. ca_id r = Some advanceId) (cash_advances db) of
        None \<Rightarrow> Inl NotFoundError
      | Some ca \<Rightarrow>
          if ca_status ca \<noteq> Some (status_text PENDING) then Inl InvalidStateError
          else
            persist (update_cash_advances env advanceId
              (\<lambda>r. r\<lparr>ca_status := Some (status_text REJECTED),
                      ca_rejection_reason := Some reason,
                      ca_approved_by := Some approverId,
                      ca_approved_at := Some (current_timestamp env)\<rparr>)
              db))"

text \<open>
  Modelled from the spec: \<open>markPaid(advanceId, paymentDate)\<close>, missing from the sources.
  "Permitted only from APPROVED, and only once outstanding balance (amount - sum of
  payments) is fully covered by recorded payments; sets status = PAID and payment_date.
  Fails with InvalidStateError if not APPROVED; fails with BalanceError if outstanding
  balance remains."
\<close>

definition markPaid :: "env \<Rightarrow> uuid \<Rightarrow> date \<Rightarrow> db \<Rightarrow> error + db" where
  "markPaid env advanceId paymentDate db =
     (case find (\<lambda>r. ca_id r = Some advanceId) (cash_advances db) of
        None \<Rightarrow> Inl NotFoundError
      | Some ca \<Rightarrow>
          if ca_status ca \<noteq> Some (status_text APPROVED) then Inl InvalidStateError
          else if (case ca_amount ca of None \<Rightarrow> True | Some a \<Rightarrow> total_paid advanceId db < a)
            then Inl BalanceError
          else
            persist (update_cash_advances env advanceId
              (\<lambda>r. r\<lparr>ca_status := Some (status_text PAID),
                      ca_payment_date := Some paymentDate\<rparr>)
              db))"

text \<open>
  Modelled from the spec: \<open>recordPayment(advanceId, amount, type, reference?, recordedBy)\<close>,
  missing from the sources. "Requires the referenced CashAdvance exists and is in APPROVED
  or PAID status; requires amount > 0; appends a Payment row. Running total of payments
  for the advance must not exceed its principal; violating this should fail with
  BalanceError." The failures before the balance check take the error kinds of section 7.
\<close>

definition recordPayment ::
  "env \<Rightarrow> uuid \<Rightarrow> numeric \<Rightarrow> PaymentType \<Rightarrow> string option \<Rightarrow> uuid \<Rightarrow> db \<Rightarrow> error + db" where
  "recordPayment env advanceId amount type reference recordedBy db =
     (case find (\<lambda>r. ca_id r = Some advanceId) (cash_advances db) of
        None \<Rightarrow> Inl NotFoundError
      | Some ca \<Rightarrow>
          if ca_status ca \<notin> set [Some (status_text APPROVED), Some (status_text PAID)]
            then Inl InvalidStateError
          else if amount \<le> 0 then Inl ValidationError
          else if (case ca_amount ca of
                     None \<Rightarrow> True
                   | Some a \<Rightarrow> a < total_paid advanceId db + amount)
            then Inl BalanceError
          else
            persist (insert_payments
              ((payments_default env)
                 \<lparr>p_cash_advance_id := Some advanceId,
                  p_amount := Some amount,
                  p_payment_type := Some (payment_type_text type),
                  p_reference_number := reference,
                  p_recorded_by := Some recordedBy\<rparr>)
              db))"

text \<open>
  The calls a running system makes. User and employee records are "created by
  administrative action": \<open>Administer\<close> is a statement on \<open>users\<close> or \<open>employees\<close>; a
  statement on another table is refused, since the ledgers are written through the
  operations only.
\<close>

datatype call =
  Administer stmt
  | Submit uuid numeric string
  | Approve uuid uuid "int option" "numeric option"
  | Reject uuid uuid string
  | MarkPaid uuid date
  | RecordPayment uuid numeric PaymentType "string option" uuid

fun directory_stmt :: "stmt \<Rightarrow> bool" where
  "directory_stmt (Insert_users r) = True"
| "directory_stmt (Update_users k upd) = True"
| "directory_stmt (Delete_users k) = True"
| "directory_stmt (Insert_employees r) = True"
| "directory_stmt (Update_employees k upd) = True"
| "directory_stmt (Delete_employees k) = True"
| "directory_stmt s = False"

fun perform :: "env \<Rightarrow> call \<Rightarrow> db \<Rightarrow> error + db" where
  "perform env (Administer s) db =
     (if directory_stmt s then persist (exec_stmt env s db) else Inl ValidationError)"
| "perform env (Submit employeeId amount reason) db = submit env employeeId amount reason db"
| "perform env (Approve advanceId approverId installmentPeriod monthlyDeduction) db =
     approve env advanceId approverId installmentPeriod monthlyDeduction db"
| "perform env (Reject advanceId approverId reason) db = reject env advanceId approverId reason db"
| "perform env (MarkPaid advanceId paymentDate) db = markPaid env advanceId paymentDate db"
| "perform env (RecordPayment advanceId amount type reference recordedBy) db =
     recordPayment env advanceId amount type reference recordedBy db"

fun serve :: "(env \<times> call) list \<Rightarrow> db \<Rightarrow> db" where
  "serve [] db = db"
| "serve ((env, c) # rest) db = serve rest (commit (perform env c db) db)"

section \<open>Notions used in the statements\<close>

text \<open>
  What an audit entry says: its action, its table, the entity and the two row images.
  \<open>new_values_status\<close> is the member \<open>status\<close> of the entry's \<open>new_values\<close>.
\<close>

definition logs ::
  "audit_logs_row \<Rightarrow> string \<Rightarrow> string \<Rightarrow> uuid option \<Rightarrow> jsonb option \<Rightarrow> jsonb option \<Rightarrow> bool" where
  "logs entry action table entity old new =
     (al_action entry = Some action \<and> al_entity_type entry = Some table \<and>
      al_entity_id entry = entity \<and> al_old_values entry = old \<and> al_new_values entry = new)"

definition new_values_status :: "audit_logs_row \<Rightarrow> json option" where
  "new_values_status entry = Option.bind (al_new_values entry) (\<lambda>j. map_of j ''status'')"

text \<open>
  The enumerated domains: a role and a status are present and among the listed values; a
  payment type is among the listed values when it is present.
\<close>
definition in_domain :: "string option \<Rightarrow> string list \<Rightarrow> bool" where
  "in_domain v allowed = (case v of None \<Rightarrow> False | Some s \<Rightarrow> s \<in> set allowed)"

definition enumerated_domains :: "db \<Rightarrow> bool" where
  "enumerated_domains db =
     (list_all (\<lambda>u. in_domain (u_role u) [''ADMIN'', ''SUPERVISOR'', ''EMPLOYEE'']) (users db) \<and>
      list_all (\<lambda>c. in_domain (ca_status c) [''PENDING'', ''APPROVED'', ''REJECTED'', ''PAID''])
        (cash_advances db) \<and>
      list_all (\<lambda>p. check_in (p_payment_type p) [''SALARY_DEDUCTION'', ''CASH'', ''BANK_TRANSFER''])
        (payments db))"

text \<open>
  The keys the schema declares, as a property of a state: the primary keys of
  \<open>cash_advances\<close> and \<open>employees\<close> are present and distinct, and every advance refers to
  an employee. \<open>summary_row_of\<close> is the row the claim about the view expects for an
  advance, its employee and the sum paid.
\<close>

definition keys_valid :: "db \<Rightarrow> bool" where
  "keys_valid db =
     (distinct (map ca_id (cash_advances db)) \<and> distinct (map e_id (employees db)) \<and>
      list_all (\<lambda>c. ca_id c \<noteq> None \<and> ca_employee_id c \<noteq> None \<and>
                    ca_employee_id c \<in> set (map e_id (employees db)))
        (cash_advances db))"

definition summary_row_of :: "cash_advances_row \<Rightarrow> employees_row \<Rightarrow> numeric \<Rightarrow> cash_advance_summary_row" where
  "summary_row_of ca e paid =
     \<lparr>s_id = ca_id ca,
      s_employee_name = concat_text (concat_text (e_first_name e) (Some '' '')) (e_last_name e),
      s_amount = ca_amount ca, s_status = ca_status ca, s_created_at = ca_created_at ca,
      s_total_paid = Some paid,
      s_remaining_balance = map_option (\<lambda>a. a - paid) (ca_amount ca)\<rparr>"

subsection \<open>An example state\<close>

text \<open>
  One administrator, employee 10 who supervises employee 11, and one advance of 1000.00
  for employee 10; the session has set \<open>app.current_user_id\<close> to the administrator.
\<close>

definition demo_env :: env where
  "demo_env =
     \<lparr>current_user_id = Some ''1'', uuid_in = (\<lambda>s. if s = ''1'' then Some 1 else None),
      current_timestamp = 1000, uuid_generate_v4 = (\<lambda>n. 100 + n)\<rparr>"

definition demo_user :: users_row where
  "demo_user =
     \<lparr>u_id = Some 1, u_username = Some ''admin'', u_password_hash = Some ''x'',
      u_email = Some ''admin@sakada.com'', u_role = Some ''ADMIN'', u_access_level = Some 10,
      u_created_at = Some 0, u_last_login = None, u_is_active = Some True\<rparr>"

definition demo_employee :: "uuid \<Rightarrow> uuid option \<Rightarrow> employees_row" where
  "demo_employee k supervisor =
     \<lparr>e_id = Some k, e_user_id = None, e_first_name = Some ''Ana'', e_last_name = Some ''Cruz'',
      e_department = None, e_supervisor_id = supervisor, e_hire_date = Some 0,
      e_phone_number = None, e_address = None, e_position = None, e_salary_rate = None\<rparr>"

definition demo_advance :: "string \<Rightarrow> cash_advances_row" where
  "demo_advance status =
     \<lparr>ca_id = Some 20, ca_employee_id = Some 10, ca_amount = Some 1000,
      ca_purpose = Some ''medical'', ca_status = Some status, ca_created_at = Some 0,
      ca_updated_at = None, ca_approved_by = None, ca_approved_at = None,
      ca_rejection_reason = None, ca_payment_date = None, ca_installment_period = None,
      ca_monthly_deduction = None\<rparr>"

definition demo_db :: db where
  "demo_db =
     \<lparr>users = [demo_user], employees = [demo_employee 10 None, demo_employee 11 (Some 10)],
      cash_advances = [demo_advance ''PENDING''], payments = [], audit_logs = []\<rparr>"

definition demo_new_advance :: cash_advances_row where
  "demo_new_advance =
     (cash_advances_default demo_env)
       \<lparr>ca_employee_id := Some 11, ca_amount := Some 500, ca_purpose := Some ''tuition''\<rparr>"

definition demo_new_employee :: employees_row where
  "demo_new_employee = demo_employee 12 (Some 11)"

definition demo_approve_set :: "cash_advances_row \<Rightarrow> cash_advances_row" where
  "demo_approve_set r = r\<lparr>ca_status := Some ''APPROVED''\<rparr>"

definition demo_move_set :: "employees_row \<Rightarrow> employees_row" where
  "demo_move_set r = r\<lparr>e_department := Some ''Field''\<rparr>"

text \<open>The states after one statement on the example state (the empty state if it fails).\<close>

definition demo_inserted_advance :: db where
  "demo_inserted_advance =
     commit (insert_cash_advances demo_env demo_new_advance demo_db) empty_db"

definition demo_updated_advance :: db where
  "demo_updated_advance =
     commit (update_cash_advances demo_env 20 demo_approve_set demo_db) empty_db"

definition demo_deleted_advance :: db where
  "demo_deleted_advance = commit (delete_cash_advances demo_env 20 demo_db) empty_db"

definition demo_inserted_employee :: db where
  "demo_inserted_employee =
     commit (insert_employees demo_env demo_new_employee demo_db) empty_db"

definition demo_updated_employee :: db where
  "demo_updated_employee =
     commit (update_employees demo_env 11 demo_move_set demo_db) empty_db"

definition demo_deleted_employee :: db where
  "demo_deleted_employee = commit (delete_employees demo_env 11 demo_db) empty_db"

text \<open>
  A session with no acting user whose \<open>uuid_generate_v4\<close> counts from \<open>n\<close>, the state the
  schema script leaves in such a session, and three statements that follow it: an
  employee, an advance for the employee, and a payment with no \<open>payment_type\<close>.
\<close>

definition session :: "nat \<Rightarrow> env" where
  "session n =
     \<lparr>current_user_id = None, uuid_in = (\<lambda>s. None), current_timestamp = int n,
      uuid_generate_v4 = (\<lambda>i. n + i)\<rparr>"

definition seeded :: db where
  "seeded = commit (schema_init (session 100)) empty_db"

definition untyped_payment :: payments_row where
  "untyped_payment =
     (payments_default (session 400))\<lparr>p_cash_advance_id := Some 20, p_amount := Some 50\<rparr>"

definition untyped_payment_script :: "(env \<times> stmt) list" where
  "untyped_payment_script =
     [(session 200, Insert_employees (demo_employee 10 None)),
      (session 300, Insert_cash_advances (demo_advance ''PENDING'')),
      (session 400, Insert_payments untyped_payment)]"

text \<open>The example state with two payments of 200.00 and 300.00 on its advance.\<close>

definition demo_payment :: "uuid \<Rightarrow> numeric \<Rightarrow> payments_row" where
  "demo_payment k a =
     \<lparr>p_id = Some k, p_cash_advance_id = Some 20, p_amount = Some a,
      p_payment_date = Some 0, p_payment_type = Some ''CASH'', p_reference_number = None,
      p_recorded_by = Some 1\<rparr>"

definition demo_paid_db :: db where
  "demo_paid_db = demo_db\<lparr>payments := [demo_payment 30 200, demo_payment 31 300]\<rparr>"

definition demo_payments_script :: "(env \<times> stmt) list" where
  "demo_payments_script =
     [(demo_env, Insert_payments (demo_payment 30 200)),
      (demo_env, Insert_payments (demo_payment 31 300))]"

text \<open>
  Not derived in this theory: the text that the reference implementation of bcrypt
  (\<open>crypt\<close> with the prefix \<open>$2a$\<close>, cost 12) returns for the password \<open>admin123\<close> and
  the salt \<open>LQv3c1yqBWVHxkd0LHAkCO\<close>, the salt of the hash in the schema script.
\<close>

definition bcrypt_admin123 :: string where
  "bcrypt_admin123 = ''$2a$12$LQv3c1yqBWVHxkd0LHAkCOIZNQMVhY8f3jRoq4h6gAem6Lf3f3Lwq''"

text \<open>
  Two employees entered after the schema script, the first the supervisor of the second,
  and no advance.
\<close>

definition staff_script :: "(env \<times> stmt) list" where
  "staff_script =
     [(session 200, Insert_employees (demo_employee 10 None)),
      (session 210, Insert_employees (demo_employee 11 (Some 10)))]"

definition staffed :: db where
  "staffed = run staff_script seeded"

text \<open>
  An advance that is written as APPROVED with an approval time and no approver, and the
  statements that store it after the schema script.
\<close>

definition unapproved_advance :: cash_advances_row where
  "unapproved_advance = (demo_advance ''APPROVED'')\<lparr>ca_approved_at := Some 7\<rparr>"

definition unapproved_advance_script :: "(env \<times> stmt) list" where
  "unapproved_advance_script =
     [(session 200, Insert_employees (demo_employee 10 None)),
      (session 300, Insert_cash_advances unapproved_advance)]"

subsection \<open>Properties of the ledgers\<close>

text \<open>
  Every advance has a positive amount, or one that is not negative; every stored amount
  has two decimals, as a value of a \<open>NUMERIC(10,2)\<close> column has (\<open>stored_scale\<close>); the
  payments of every advance sum to at most its amount (\<open>within_principal\<close>); and the
  same together with the keys that make the sum meaningful: distinct advance ids, and
  payments that refer to stored advances.
\<close>

definition positive_amounts :: "db \<Rightarrow> bool" where
  "positive_amounts db =
     list_all (\<lambda>c. case ca_amount c of None \<Rightarrow> False | Some a \<Rightarrow> 0 < a) (cash_advances db)"

definition nonnegative_amounts :: "db \<Rightarrow> bool" where
  "nonnegative_amounts db =
     list_all (\<lambda>c. case ca_amount c of None \<Rightarrow> False | Some a \<Rightarrow> 0 \<le> a) (cash_advances db)"

definition two_decimals :: "numeric option \<Rightarrow> bool" where
  "two_decimals v = (map_option round_scale_2 v = v)"

definition stored_scale :: "db \<Rightarrow> bool" where
  "stored_scale db =
     (list_all (\<lambda>c. two_decimals (ca_amount c)) (cash_advances db) \<and>
      list_all (\<lambda>p. two_decimals (p_amount p)) (payments db))"

definition paid_within :: "db \<Rightarrow> cash_advances_row \<Rightarrow> bool" where
  "paid_within db c =
     (case ca_id c of
        None \<Rightarrow> False
      | Some k \<Rightarrow> (case ca_amount c of None \<Rightarrow> False | Some a \<Rightarrow> total_paid k db \<le> a))"

definition within_principal :: "db \<Rightarrow> bool" where
  "within_principal db = list_all (paid_within db) (cash_advances db)"

definition ledger_consistent :: "db \<Rightarrow> bool" where
  "ledger_consistent db =
     (distinct (map ca_id (cash_advances db)) \<and>
      list_all (\<lambda>p. p_cash_advance_id p \<in> set (map ca_id (cash_advances db))) (payments db) \<and>
      stored_scale db \<and> within_principal db)"

text \<open>
  The approval of an advance is recorded: an advance that is APPROVED, REJECTED or PAID
  has both \<open>approved_by\<close> and \<open>approved_at\<close>, neither is present without the other,
  and a PENDING advance has neither.
\<close>

definition approval_recorded :: "cash_advances_row \<Rightarrow> bool" where
  "approval_recorded c =
     ((ca_status c \<in> set [Some (status_text APPROVED), Some (status_text REJECTED),
                           Some (status_text PAID)] \<longrightarrow>
         ca_approved_by c \<noteq> None \<and> ca_approved_at c \<noteq> None) \<and>
      (ca_approved_by c = None \<longleftrightarrow> ca_approved_at c = None) \<and>
      (ca_status c = Some (status_text PENDING) \<longrightarrow>
         ca_approved_by c = None \<and> ca_approved_at c = None))"

text \<open>
  The first scenario of the specification, after the schema script: an employee is
  entered, submits 1000.00, the administrator approves it with five instalments of 200.00,
  five salary deductions are recorded, and the advance is marked paid. The named states
  are those after the first, second, third, eighth and last call.
\<close>

definition scenario :: "(env \<times> call) list" where
  "scenario =
     [(session 200, Administer (Insert_employees (demo_employee 10 None))),
      (session 300, Submit 10 1000 ''medical''),
      (session 400, Approve 300 100 (Some 5) (Some 200)),
      (session 500, RecordPayment 300 200 SALARY_DEDUCTION None 100),
      (session 510, RecordPayment 300 200 SALARY_DEDUCTION None 100),
      (session 520, RecordPayment 300 200 SALARY_DEDUCTION None 100),
      (session 530, RecordPayment 300 200 SALARY_DEDUCTION None 100),
      (session 540, RecordPayment 300 200 SALARY_DEDUCTION None 100),
      (session 600, MarkPaid 300 7)]"

definition hired :: db where "hired = serve (take 1 scenario) seeded"
definition submitted :: db where "submitted = serve (take 2 scenario) seeded"
definition approved :: db where "approved = serve (take 3 scenario) seeded"
definition repaid :: db where "repaid = serve (take 8 scenario) seeded"
definition settled :: db where "settled = serve scenario seeded"

text \<open>
  A second use of the system: the employee is entered and submits an amount of 1/256, a
  positive number below half a hundredth.
\<close>

definition small_amount_calls :: "(env \<times> call) list" where
  "small_amount_calls =
     [(session 200, Administer (Insert_employees (demo_employee 10 None))),
      (session 300, Submit 10 (1 / 256) ''medical'')]"

definition small_amount_stored :: db where
  "small_amount_stored = serve small_amount_calls seeded"
section \<open>Rounding to two decimals\<close>

text \<open>
  \<open>round_scale_2\<close> keeps a value that has two decimals, is monotone, and maps a sum or
  difference of such values to itself.
\<close>

lemma round_half_away_of_int [simp]: "round_half_away (of_int n) = n"
proof -
  have a: "\<lfloor>(of_int m :: rat) + 1 / 2\<rfloor> = m" for m
    by (rule floor_unique) simp_all
  from a[of "- n"] have b: "\<lfloor>- (of_int n :: rat) + 1 / 2\<rfloor> = - n" by simp
  show ?thesis unfolding round_half_away_def by (simp only: a b) simp
qed

lemma round_half_away_mono: "x \<le> y \<Longrightarrow> round_half_away x \<le> round_half_away y"
  unfolding round_half_away_def
  by (auto intro!: floor_mono) (linarith+)

lemma round_scale_2_of_int: "round_scale_2 (of_int n) = of_int n"
proof -
  have "(of_int n :: rat) * 100 = of_int (n * 100)" by simp
  then have "round_half_away (of_int n * 100) = n * 100"
    by (simp only: round_half_away_of_int)
  then show ?thesis by (simp add: round_scale_2_def)
qed

lemma round_scale_2_numeral [simp]: "round_scale_2 (numeral n) = numeral n"
  using round_scale_2_of_int[of "numeral n"] by simp

lemma round_scale_2_zero [simp]: "round_scale_2 0 = 0"
  using round_scale_2_of_int[of 0] by simp

lemma round_scale_2_one [simp]: "round_scale_2 1 = 1"
  using round_scale_2_of_int[of 1] by simp

lemma round_scale_2_idem [simp]: "round_scale_2 (round_scale_2 x) = round_scale_2 x"
  by (simp add: round_scale_2_def)

lemma round_scale_2_mono: "x \<le> y \<Longrightarrow> round_scale_2 x \<le> round_scale_2 y"
  by (simp add: round_scale_2_def round_half_away_mono divide_right_mono)

lemma round_scale_2_nonneg: "0 \<le> x \<Longrightarrow> 0 \<le> round_scale_2 x"
  using round_scale_2_mono[of 0 x] by simp

lemma round_scale_2_hundredth: "round_scale_2 (of_int n / 100) = of_int n / 100"
  by (simp add: round_scale_2_def)

lemma round_scale_2_positive:
  assumes "1 / 200 \<le> x"
  shows "1 / 100 \<le> round_scale_2 x"
proof -
  have "round_scale_2 (of_int 1 / 100) = of_int 1 / 100" by (rule round_scale_2_hundredth)
  moreover have "round_scale_2 (1 / 200) = 1 / 100"
    by (simp add: round_scale_2_def round_half_away_def)
  ultimately show ?thesis using round_scale_2_mono[OF assms] by simp
qed

lemma round_scale_2_small: "round_scale_2 (1 / 256) = 0"
  by (simp add: round_scale_2_def round_half_away_def floor_eq_iff)

lemma round_scale_2_add:
  assumes "round_scale_2 x = x" and "round_scale_2 y = y"
  shows "round_scale_2 (x + y) = x + y"
proof -
  let ?m = "round_half_away (x * 100)" and ?n = "round_half_away (y * 100)"
  from assms have "x = of_int ?m / 100" "y = of_int ?n / 100"
    by (simp_all add: round_scale_2_def)
  then have "x + y = of_int (?m + ?n) / 100" by (simp add: add_divide_distrib)
  then show ?thesis by (simp only: round_scale_2_hundredth)
qed

lemma round_scale_2_diff:
  assumes "round_scale_2 x = x" and "round_scale_2 y = y"
  shows "round_scale_2 (x - y) = x - y"
proof -
  let ?m = "round_half_away (x * 100)" and ?n = "round_half_away (y * 100)"
  from assms have "x = of_int ?m / 100" "y = of_int ?n / 100"
    by (simp_all add: round_scale_2_def)
  then have "x - y = of_int (?m - ?n) / 100" by (simp add: diff_divide_distrib)
  then show ?thesis by (simp only: round_scale_2_hundredth)
qed

lemma round_scale_2_within:
  assumes "round_scale_2 t = t" and "round_scale_2 a = a" and "t + x \<le> a"
  shows "t + round_scale_2 x \<le> a"
proof -
  from assms(3) have "x \<le> a - t" by simp
  then have "round_scale_2 x \<le> round_scale_2 (a - t)" by (rule round_scale_2_mono)
  with round_scale_2_diff[OF assms(2,1)] show ?thesis by simp
qed

section \<open>The audit trigger and the audited statements\<close>

text \<open>The definitions that evaluate a statement on a concrete state.\<close>

lemmas col_defs = varchar_def numeric_10_2_def integer_def and_then_def check_in_def
  references_def coalesce_def nullable_def

lemmas audit_defs = audit_trigger_function_def insert_audit_logs_def coerce_audit_logs_def
  audit_logs_default_def cash_advances_to_json_def employees_to_json_def

lemmas u_defs = insert_users_def update_users_def delete_users_def coerce_users_def
  users_constraints_def users_referenced_def users_default_def

lemmas e_defs = insert_employees_def update_employees_def delete_employees_def
  coerce_employees_def employees_constraints_def employees_foreign_keys_def
  employees_referenced_def employees_default_def set_null_supervisor_def

lemmas ca_defs = insert_cash_advances_def update_cash_advances_def delete_cash_advances_def
  coerce_cash_advances_def cash_advances_constraints_def cash_advances_foreign_keys_def
  cash_advances_referenced_def cash_advances_default_def

lemmas p_defs = insert_payments_def update_payments_def delete_payments_def
  coerce_payments_def payments_constraints_def payments_foreign_keys_def payments_default_def

lemmas demo_defs = demo_env_def demo_user_def demo_employee_def demo_advance_def demo_db_def
  demo_new_advance_def demo_new_employee_def demo_approve_set_def demo_move_set_def

lemmas demo_result_defs = demo_inserted_advance_def demo_updated_advance_def
  demo_deleted_advance_def demo_inserted_employee_def demo_updated_employee_def
  demo_deleted_employee_def

lemma and_then_Inr: "and_then m f = Inr y \<longleftrightarrow> (\<exists>x. m = Inr x \<and> f x = Inr y)"
  by (cases m) (simp_all add: and_then_def)

lemma varchar_short: "length s \<le> n \<Longrightarrow> varchar n (Some s) = Inr (Some s)"
  by (simp add: varchar_def)

lemma insert_audit_logs_Inr:
  assumes "insert_audit_logs r db = Inr db'"
  shows "\<exists>entry. coerce_audit_logs r = Inr entry \<and> db' = db\<lparr>audit_logs := audit_logs db @ [entry]\<rparr>"
  using assms by (auto simp: insert_audit_logs_def and_then_Inr split: if_splits)

lemma coerce_audit_logs_fields:
  assumes "coerce_audit_logs r = Inr entry"
  shows "al_id entry = al_id r \<and> al_user_id entry = al_user_id r \<and> al_entity_id entry = al_entity_id r
    \<and> al_old_values entry = al_old_values r \<and> al_new_values entry = al_new_values r
    \<and> al_created_at entry = al_created_at r
    \<and> varchar 50 (al_action r) = Inr (al_action entry)
    \<and> varchar 50 (al_entity_type r) = Inr (al_entity_type entry)"
  using assms by (auto simp: coerce_audit_logs_def and_then_Inr)

lemma audit_trigger_function_Inr:
  assumes "audit_trigger_function env n TG_OP TG_TABLE_NAME OLD NEW db = Inr db'"
  shows "\<exists>entry. db' = db\<lparr>audit_logs := audit_logs db @ [entry]\<rparr>
     \<and> al_entity_id entry = coalesce (Option.bind NEW row_id) (Option.bind OLD row_id)
     \<and> al_old_values entry = (if TG_OP = ''DELETE'' then map_option row_to_json OLD else None)
     \<and> al_new_values entry =
         (if TG_OP \<in> set [''INSERT'', ''UPDATE''] then map_option row_to_json NEW else None)
     \<and> varchar 50 (Some TG_OP) = Inr (al_action entry)
     \<and> varchar 50 (Some TG_TABLE_NAME) = Inr (al_entity_type entry)"
proof -
  from assms obtain user_id r where
    r: "r = (audit_logs_default env n)
               \<lparr>al_user_id := user_id,
                al_action := Some TG_OP,
                al_entity_type := Some TG_TABLE_NAME,
                al_entity_id := coalesce (Option.bind NEW row_id) (Option.bind OLD row_id),
                al_old_values :=
                  (if TG_OP = ''DELETE'' then map_option row_to_json OLD else None),
                al_new_values :=
                  (if TG_OP \<in> set [''INSERT'', ''UPDATE''] then map_option row_to_json NEW
                   else None)\<rparr>"
    and ins: "insert_audit_logs r db = Inr db'"
    unfolding audit_trigger_function_def and_then_Inr by blast
  from insert_audit_logs_Inr[OF ins] obtain entry where
    e: "coerce_audit_logs r = Inr entry" "db' = db\<lparr>audit_logs := audit_logs db @ [entry]\<rparr>"
    by blast
  from coerce_audit_logs_fields[OF e(1)] r e(2) show ?thesis
    by (intro exI[of _ entry]) simp
qed

lemma coalesce_None [simp]: "coalesce a None = a"
  by (cases a) (simp_all add: coalesce_def)

lemma guard_Inr:
  "(case x of None \<Rightarrow> f | Some e \<Rightarrow> Inl e) = Inr y \<longleftrightarrow> x = None \<and> f = Inr y"
  by (cases x) simp_all

lemma audit_trigger_function_logs:
  assumes "audit_trigger_function env n TG_OP TG_TABLE_NAME OLD NEW db = Inr db'"
    and "length TG_OP \<le> 50" and "length TG_TABLE_NAME \<le> 50"
  shows "\<exists>entry. db' = db\<lparr>audit_logs := audit_logs db @ [entry]\<rparr>
     \<and> logs entry TG_OP TG_TABLE_NAME (coalesce (Option.bind NEW row_id) (Option.bind OLD row_id))
          (if TG_OP = ''DELETE'' then map_option row_to_json OLD else None)
          (if TG_OP \<in> set [''INSERT'', ''UPDATE''] then map_option row_to_json NEW else None)"
proof -
  from audit_trigger_function_Inr[OF assms(1)] obtain entry where
    e: "db' = db\<lparr>audit_logs := audit_logs db @ [entry]\<rparr>"
      "al_entity_id entry = coalesce (Option.bind NEW row_id) (Option.bind OLD row_id)"
      "al_old_values entry = (if TG_OP = ''DELETE'' then map_option row_to_json OLD else None)"
      "al_new_values entry =
         (if TG_OP \<in> set [''INSERT'', ''UPDATE''] then map_option row_to_json NEW else None)"
      "varchar 50 (Some TG_OP) = Inr (al_action entry)"
      "varchar 50 (Some TG_TABLE_NAME) = Inr (al_entity_type entry)"
    by blast
  from e(5) assms(2) have "al_action entry = Some TG_OP"
    by (simp only: varchar_short sum.inject)
  moreover from e(6) assms(3) have "al_entity_type entry = Some TG_TABLE_NAME"
    by (simp only: varchar_short sum.inject)
  ultimately have "logs entry TG_OP TG_TABLE_NAME
      (coalesce (Option.bind NEW row_id) (Option.bind OLD row_id))
      (if TG_OP = ''DELETE'' then map_option row_to_json OLD else None)
      (if TG_OP \<in> set [''INSERT'', ''UPDATE''] then map_option row_to_json NEW else None)"
    unfolding logs_def using e(2,3,4) by blast
  with e(1) show ?thesis by blast
qed

lemma cash_advances_constraints_id:
  "cash_advances_constraints row others = None \<Longrightarrow> \<exists>k. ca_id row = Some k"
  by (cases "ca_id row") (simp_all add: cash_advances_constraints_def)

lemma coalesce_Some [simp]: "coalesce (Some x) b = Some x"
  by (simp add: coalesce_def)

lemma insert_cash_advances_Inr:
  assumes "insert_cash_advances env r db = Inr db'"
  shows "\<exists>row entry. coerce_cash_advances r = Inr row
     \<and> cash_advances_constraints row (cash_advances db) = None
     \<and> cash_advances_foreign_keys row (db\<lparr>cash_advances := cash_advances db @ [row]\<rparr>) = None
     \<and> db' = db\<lparr>cash_advances := cash_advances db @ [row], audit_logs := audit_logs db @ [entry]\<rparr>
     \<and> logs entry ''INSERT'' ''cash_advances'' (ca_id row) None (Some (cash_advances_to_json row))"
proof -
  from assms obtain row where
    row: "coerce_cash_advances r = Inr row"
      "cash_advances_constraints row (cash_advances db) = None"
      "cash_advances_foreign_keys row (db\<lparr>cash_advances := cash_advances db @ [row]\<rparr>) = None"
    and a: "audit_trigger_function env 1 ''INSERT'' ''cash_advances'' None
              (Some (Cash_advances_row row)) (db\<lparr>cash_advances := cash_advances db @ [row]\<rparr>) = Inr db'"
    by (auto simp: insert_cash_advances_def and_then_Inr guard_Inr Let_def)
  from audit_trigger_function_logs[OF a] row show ?thesis
    by auto
qed

lemma update_cash_advances_Inr:
  assumes "update_cash_advances env k upd db = Inr db'"
    and "find (\<lambda>r. ca_id r = Some k) (cash_advances db) = Some old"
  shows "\<exists>row entry. coerce_cash_advances (upd old) = Inr row
     \<and> cash_advances_constraints row (filter (\<lambda>r. ca_id r \<noteq> Some k) (cash_advances db)) = None
     \<and> cash_advances_foreign_keys row
          (db\<lparr>cash_advances := map (\<lambda>r. if ca_id r = Some k then row else r) (cash_advances db)\<rparr>) = None
     \<and> db' = db\<lparr>cash_advances := map (\<lambda>r. if ca_id r = Some k then row else r) (cash_advances db),
                 audit_logs := audit_logs db @ [entry]\<rparr>
     \<and> logs entry ''UPDATE'' ''cash_advances'' (ca_id row) None (Some (cash_advances_to_json row))"
proof -
  from assms obtain row where
    row: "coerce_cash_advances (upd old) = Inr row"
      "cash_advances_constraints row (filter (\<lambda>r. ca_id r \<noteq> Some k) (cash_advances db)) = None"
      "cash_advances_foreign_keys row
          (db\<lparr>cash_advances := map (\<lambda>r. if ca_id r = Some k then row else r) (cash_advances db)\<rparr>) = None"
    and a: "audit_trigger_function env 1 ''UPDATE'' ''cash_advances'' (Some (Cash_advances_row old))
              (Some (Cash_advances_row row))
              (db\<lparr>cash_advances := map (\<lambda>r. if ca_id r = Some k then row else r) (cash_advances db)\<rparr>) = Inr db'"
    by (auto simp: update_cash_advances_def and_then_Inr guard_Inr Let_def)
  from audit_trigger_function_logs[OF a] row cash_advances_constraints_id[OF row(2)] show ?thesis
    by auto
qed

lemma update_cash_advances_missing:
  "find (\<lambda>r. ca_id r = Some k) (cash_advances db) = None \<Longrightarrow> update_cash_advances env k upd db = Inr db"
  by (simp add: update_cash_advances_def)

lemma delete_cash_advances_Inr:
  assumes "delete_cash_advances env k db = Inr db'"
    and "find (\<lambda>r. ca_id r = Some k) (cash_advances db) = Some old"
  shows "\<exists>entry. Some k \<notin> set (map p_cash_advance_id (payments db))
     \<and> db' = db\<lparr>cash_advances := filter (\<lambda>r. ca_id r \<noteq> Some k) (cash_advances db),
                 audit_logs := audit_logs db @ [entry]\<rparr>
     \<and> logs entry ''DELETE'' ''cash_advances'' (ca_id old) (Some (cash_advances_to_json old)) None"
proof -
  from assms have ref: "cash_advances_referenced k
        (db\<lparr>cash_advances := filter (\<lambda>r. ca_id r \<noteq> Some k) (cash_advances db)\<rparr>) = None"
    and a: "audit_trigger_function env 1 ''DELETE'' ''cash_advances'' (Some (Cash_advances_row old))
              None (db\<lparr>cash_advances := filter (\<lambda>r. ca_id r \<noteq> Some k) (cash_advances db)\<rparr>) = Inr db'"
    by (auto simp: delete_cash_advances_def guard_Inr Let_def)
  from ref have "Some k \<notin> set (map p_cash_advance_id (payments db))"
    by (simp add: cash_advances_referenced_def split: if_splits)
  with audit_trigger_function_logs[OF a] show ?thesis
    by (auto simp: coalesce_def)
qed

lemma employees_constraints_id:
  "employees_constraints row others = None \<Longrightarrow> \<exists>k. e_id row = Some k"
  by (cases "e_id row") (simp_all add: employees_constraints_def)

lemma insert_employees_Inr:
  assumes "insert_employees env r db = Inr db'"
  shows "\<exists>row entry. coerce_employees r = Inr row
     \<and> employees_constraints row (employees db) = None
     \<and> employees_foreign_keys row (db\<lparr>employees := employees db @ [row]\<rparr>) = None
     \<and> db' = db\<lparr>employees := employees db @ [row], audit_logs := audit_logs db @ [entry]\<rparr>
     \<and> logs entry ''INSERT'' ''employees'' (e_id row) None (Some (employees_to_json row))"
proof -
  from assms obtain row where
    row: "coerce_employees r = Inr row"
      "employees_constraints row (employees db) = None"
      "employees_foreign_keys row (db\<lparr>employees := employees db @ [row]\<rparr>) = None"
    and a: "audit_trigger_function env 1 ''INSERT'' ''employees'' None
              (Some (Employees_row row)) (db\<lparr>employees := employees db @ [row]\<rparr>) = Inr db'"
    by (auto simp: insert_employees_def and_then_Inr guard_Inr Let_def)
  from audit_trigger_function_logs[OF a] row show ?thesis
    by auto
qed

lemma update_employees_Inr:
  assumes "update_employees env k upd db = Inr db'"
    and "find (\<lambda>r. e_id r = Some k) (employees db) = Some old"
  shows "\<exists>row entry. coerce_employees (upd old) = Inr row
     \<and> employees_constraints row (filter (\<lambda>r. e_id r \<noteq> Some k) (employees db)) = None
     \<and> employees_foreign_keys row
          (db\<lparr>employees := map (\<lambda>r. if e_id r = Some k then row else r) (employees db)\<rparr>) = None
     \<and> db' = db\<lparr>employees := map (\<lambda>r. if e_id r = Some k then row else r) (employees db),
                 audit_logs := audit_logs db @ [entry]\<rparr>
     \<and> logs entry ''UPDATE'' ''employees'' (e_id row) None (Some (employees_to_json row))"
proof -
  from assms obtain row where
    row: "coerce_employees (upd old) = Inr row"
      "employees_constraints row (filter (\<lambda>r. e_id r \<noteq> Some k) (employees db)) = None"
      "employees_foreign_keys row
          (db\<lparr>employees := map (\<lambda>r. if e_id r = Some k then row else r) (employees db)\<rparr>) = None"
    and a: "audit_trigger_function env 1 ''UPDATE'' ''employees'' (Some (Employees_row old))
              (Some (Employees_row row))
              (db\<lparr>employees := map (\<lambda>r. if e_id r = Some k then row else r) (employees db)\<rparr>) = Inr db'"
    by (auto simp: update_employees_def and_then_Inr guard_Inr Let_def)
  from audit_trigger_function_logs[OF a] row employees_constraints_id[OF row(2)] show ?thesis
    by auto
qed

lemma filter_key_empty: "v \<notin> set (map f xs) \<Longrightarrow> filter (\<lambda>r. f r = v) xs = []"
  by (induction xs) auto

lemma map_key_id: "v \<notin> set (map f xs) \<Longrightarrow> map (\<lambda>r. if f r = v then g r else r) xs = xs"
  by (induction xs) auto

lemma set_null_supervisor_none:
  assumes "Some k \<notin> set (map e_supervisor_id (employees db))"
  shows "set_null_supervisor env k db = Inr db"
  unfolding set_null_supervisor_def
  by (simp add: filter_key_empty[OF assms] map_key_id[OF assms])

lemma delete_employees_Inr:
  assumes "delete_employees env k db = Inr db'"
    and "find (\<lambda>r. e_id r = Some k) (employees db) = Some old"
  shows "\<exists>entry.
       Some k \<notin> set (map e_supervisor_id (filter (\<lambda>r. e_id r \<noteq> Some k) (employees db)))
     \<and> Some k \<notin> set (map ca_employee_id (cash_advances db))
     \<and> db' = db\<lparr>employees := filter (\<lambda>r. e_id r \<noteq> Some k) (employees db),
                 audit_logs := audit_logs db @ [entry]\<rparr>
     \<and> logs entry ''DELETE'' ''employees'' (e_id old) (Some (employees_to_json old)) None"
proof -
  let ?rest = "filter (\<lambda>r. e_id r \<noteq> Some k) (employees db)"
  let ?db1 = "db\<lparr>employees := ?rest\<rparr>"
  have sup: "Some k \<notin> set (map e_supervisor_id ?rest)"
    using assms by (simp add: delete_employees_def Let_def split: if_splits)
  then have sup1: "Some k \<notin> set (map e_supervisor_id (employees ?db1))"
    by simp
  have null: "set_null_supervisor env k ?db1 = Inr ?db1"
    using sup1 by (rule set_null_supervisor_none)
  have len: "filter (\<lambda>r. e_supervisor_id r = Some k) ?rest = []"
    using sup by (rule filter_key_empty)
  from assms sup null len have adv: "Some k \<notin> set (map ca_employee_id (cash_advances db))"
    and a: "audit_trigger_function env 1 ''DELETE'' ''employees'' (Some (Employees_row old))
              None ?db1 = Inr db'"
    by (simp_all add: delete_employees_def and_then_def Let_def split: if_splits)
  from audit_trigger_function_logs[OF a] sup adv show ?thesis
    by (auto simp: coalesce_def)
qed

lemma cash_advances_constraints_None:
  "cash_advances_constraints row others = None \<longleftrightarrow>
     ca_id row \<noteq> None \<and> ca_employee_id row \<noteq> None \<and> ca_amount row \<noteq> None \<and>
     ca_purpose row \<noteq> None \<and> ca_status row \<noteq> None \<and>
     check_in (ca_status row) [''PENDING'', ''APPROVED'', ''REJECTED'', ''PAID''] \<and>
     ca_id row \<notin> set (map ca_id others)"
  by (simp add: cash_advances_constraints_def)

lemma cash_advances_constraints_status:
  "cash_advances_constraints row others = None \<Longrightarrow> \<exists>s. ca_status row = Some s"
  by (auto simp: cash_advances_constraints_None)

lemma status_member:
  assumes "cash_advances_constraints row others = None"
    and "al_new_values entry = Some (cash_advances_to_json row)"
  shows "new_values_status entry = map_option JText (ca_status row)"
  using cash_advances_constraints_status[OF assms(1)] assms(2)
  by (auto simp: new_values_status_def cash_advances_to_json_def nullable_def)

lemma nullable_eq:
  "nullable JUuid a = nullable JUuid a' \<longleftrightarrow> a = a'"
  "nullable JText b = nullable JText b' \<longleftrightarrow> b = b'"
  "nullable JNumeric c = nullable JNumeric c' \<longleftrightarrow> c = c'"
  "nullable JInteger d = nullable JInteger d' \<longleftrightarrow> d = d'"
  "nullable JTimestamp e = nullable JTimestamp e' \<longleftrightarrow> e = e'"
  "nullable JDate f = nullable JDate f' \<longleftrightarrow> f = f'"
  by (auto simp: nullable_def split: option.splits)

lemma employees_to_json_inj: "employees_to_json x = employees_to_json y \<Longrightarrow> x = y"
  by (cases x; cases y) (simp add: employees_to_json_def nullable_eq)

lemma cash_advances_to_json_inj: "cash_advances_to_json x = cash_advances_to_json y \<Longrightarrow> x = y"
  by (cases x; cases y) (simp add: cash_advances_to_json_def nullable_eq)

lemma row_to_json_inj: "row_to_json a = row_to_json b \<Longrightarrow> a = b"
proof (cases a; cases b)
  fix x y assume "a = Employees_row x" "b = Employees_row y" "row_to_json a = row_to_json b"
  then show ?thesis by (simp add: employees_to_json_inj)
next
  fix x y assume "a = Cash_advances_row x" "b = Cash_advances_row y" "row_to_json a = row_to_json b"
  then show ?thesis by (simp add: cash_advances_to_json_inj)
next
  fix x y assume "a = Employees_row x" "b = Cash_advances_row y" "row_to_json a = row_to_json b"
  then show ?thesis by (simp add: employees_to_json_def cash_advances_to_json_def)
next
  fix x y assume "a = Cash_advances_row x" "b = Employees_row y" "row_to_json a = row_to_json b"
  then show ?thesis by (simp add: employees_to_json_def cash_advances_to_json_def)
qed

lemma demo_writes:
  "insert_cash_advances demo_env demo_new_advance demo_db = Inr demo_inserted_advance"
  "update_cash_advances demo_env 20 demo_approve_set demo_db = Inr demo_updated_advance"
  "delete_cash_advances demo_env 20 demo_db = Inr demo_deleted_advance"
  "insert_employees demo_env demo_new_employee demo_db = Inr demo_inserted_employee"
  "update_employees demo_env 11 demo_move_set demo_db = Inr demo_updated_employee"
  "delete_employees demo_env 11 demo_db = Inr demo_deleted_employee"
  by (simp_all add: demo_result_defs commit_def demo_defs ca_defs e_defs audit_defs col_defs)

lemma demo_finds:
  "find (\<lambda>r. ca_id r = Some 20) (cash_advances demo_db) = Some (demo_advance ''PENDING'')"
  "find (\<lambda>r. e_id r = Some 11) (employees demo_db) = Some (demo_employee 11 (Some 10))"
  by (simp_all add: demo_defs)

section \<open>Claims about the audit log\<close>

text \<open>
  Claim C3. Every successful insert, update or delete of a row of \<open>cash_advances\<close> or
  \<open>employees\<close> (a status transition is such an update) appends exactly one entry to
  \<open>audit_logs\<close>, for the id of the written row and the name of its table; for a row of
  \<open>cash_advances\<close> that is inserted or updated, the member \<open>status\<close> of the entry's
  \<open>new_values\<close> is the status the row has after the write. The write and its entry are
  one result: both are in the state the statement returns, and a statement that raises
  returns no state, so that the state before it remains.
\<close>

theorem writes_append_one_audit_entry:
  "(insert_cash_advances env r1 db = Inr db1 \<longrightarrow>
      (\<exists>row entry. cash_advances db1 = cash_advances db @ [row] \<and>
         audit_logs db1 = audit_logs db @ [entry] \<and>
         al_entity_type entry = Some ''cash_advances'' \<and> al_entity_id entry = ca_id row \<and>
         new_values_status entry = map_option JText (ca_status row))) \<and>
   (update_cash_advances env k2 upd2 db = Inr db2 \<and>
    find (\<lambda>r. ca_id r = Some k2) (cash_advances db) = Some old2 \<longrightarrow>
      (\<exists>row entry.
         cash_advances db2 = map (\<lambda>r. if ca_id r = Some k2 then row else r) (cash_advances db) \<and>
         audit_logs db2 = audit_logs db @ [entry] \<and>
         al_entity_type entry = Some ''cash_advances'' \<and> al_entity_id entry = ca_id row \<and>
         new_values_status entry = map_option JText (ca_status row))) \<and>
   (delete_cash_advances env k3 db = Inr db3 \<and>
    find (\<lambda>r. ca_id r = Some k3) (cash_advances db) = Some old3 \<longrightarrow>
      (\<exists>entry.
         cash_advances db3 = filter (\<lambda>r. ca_id r \<noteq> Some k3) (cash_advances db) \<and>
         audit_logs db3 = audit_logs db @ [entry] \<and>
         al_entity_type entry = Some ''cash_advances'' \<and> al_entity_id entry = ca_id old3)) \<and>
   (insert_employees env r4 db = Inr db4 \<longrightarrow>
      (\<exists>row entry. employees db4 = employees db @ [row] \<and>
         audit_logs db4 = audit_logs db @ [entry] \<and>
         al_entity_type entry = Some ''employees'' \<and> al_entity_id entry = e_id row)) \<and>
   (update_employees env k5 upd5 db = Inr db5 \<and>
    find (\<lambda>r. e_id r = Some k5) (employees db) = Some old5 \<longrightarrow>
      (\<exists>row entry.
         employees db5 = map (\<lambda>r. if e_id r = Some k5 then row else r) (employees db) \<and>
         audit_logs db5 = audit_logs db @ [entry] \<and>
         al_entity_type entry = Some ''employees'' \<and> al_entity_id entry = e_id row)) \<and>
   (delete_employees env k6 db = Inr db6 \<and>
    find (\<lambda>r. e_id r = Some k6) (employees db) = Some old6 \<longrightarrow>
      (\<exists>entry.
         employees db6 = filter (\<lambda>r. e_id r \<noteq> Some k6) (employees db) \<and>
         audit_logs db6 = audit_logs db @ [entry] \<and>
         al_entity_type entry = Some ''employees'' \<and> al_entity_id entry = e_id old6)) \<and>
   (exec_stmt env s db = Inl e \<longrightarrow> commit (exec_stmt env s db) db = db)"
proof (intro conjI impI)
  assume "insert_cash_advances env r1 db = Inr db1"
  from insert_cash_advances_Inr[OF this] obtain row entry where
    *: "cash_advances_constraints row (cash_advances db) = None"
      "db1 = db\<lparr>cash_advances := cash_advances db @ [row], audit_logs := audit_logs db @ [entry]\<rparr>"
      "logs entry ''INSERT'' ''cash_advances'' (ca_id row) None (Some (cash_advances_to_json row))"
    by blast
  from *(3) have "al_new_values entry = Some (cash_advances_to_json row)"
    by (simp add: logs_def)
  from status_member[OF *(1) this] *(2,3) show
    "\<exists>row entry. cash_advances db1 = cash_advances db @ [row] \<and>
       audit_logs db1 = audit_logs db @ [entry] \<and>
       al_entity_type entry = Some ''cash_advances'' \<and> al_entity_id entry = ca_id row \<and>
       new_values_status entry = map_option JText (ca_status row)"
    by (auto simp: logs_def)
next
  assume "update_cash_advances env k2 upd2 db = Inr db2 \<and>
    find (\<lambda>r. ca_id r = Some k2) (cash_advances db) = Some old2"
  then have "update_cash_advances env k2 upd2 db = Inr db2"
    "find (\<lambda>r. ca_id r = Some k2) (cash_advances db) = Some old2" by simp_all
  from update_cash_advances_Inr[OF this] obtain row entry where
    *: "cash_advances_constraints row (filter (\<lambda>r. ca_id r \<noteq> Some k2) (cash_advances db)) = None"
      "db2 = db\<lparr>cash_advances := map (\<lambda>r. if ca_id r = Some k2 then row else r) (cash_advances db),
                 audit_logs := audit_logs db @ [entry]\<rparr>"
      "logs entry ''UPDATE'' ''cash_advances'' (ca_id row) None (Some (cash_advances_to_json row))"
    by blast
  from *(3) have "al_new_values entry = Some (cash_advances_to_json row)"
    by (simp add: logs_def)
  from status_member[OF *(1) this] *(2,3) show
    "\<exists>row entry.
       cash_advances db2 = map (\<lambda>r. if ca_id r = Some k2 then row else r) (cash_advances db) \<and>
       audit_logs db2 = audit_logs db @ [entry] \<and>
       al_entity_type entry = Some ''cash_advances'' \<and> al_entity_id entry = ca_id row \<and>
       new_values_status entry = map_option JText (ca_status row)"
    by (auto simp: logs_def)
next
  assume "delete_cash_advances env k3 db = Inr db3 \<and>
    find (\<lambda>r. ca_id r = Some k3) (cash_advances db) = Some old3"
  then have "delete_cash_advances env k3 db = Inr db3"
    "find (\<lambda>r. ca_id r = Some k3) (cash_advances db) = Some old3" by simp_all
  from delete_cash_advances_Inr[OF this] show
    "\<exists>entry.
       cash_advances db3 = filter (\<lambda>r. ca_id r \<noteq> Some k3) (cash_advances db) \<and>
       audit_logs db3 = audit_logs db @ [entry] \<and>
       al_entity_type entry = Some ''cash_advances'' \<and> al_entity_id entry = ca_id old3"
    by (auto simp: logs_def)
next
  assume "insert_employees env r4 db = Inr db4"
  from insert_employees_Inr[OF this] show
    "\<exists>row entry. employees db4 = employees db @ [row] \<and>
       audit_logs db4 = audit_logs db @ [entry] \<and>
       al_entity_type entry = Some ''employees'' \<and> al_entity_id entry = e_id row"
    by (auto simp: logs_def)
next
  assume "update_employees env k5 upd5 db = Inr db5 \<and>
    find (\<lambda>r. e_id r = Some k5) (employees db) = Some old5"
  then have "update_employees env k5 upd5 db = Inr db5"
    "find (\<lambda>r. e_id r = Some k5) (employees db) = Some old5" by simp_all
  from update_employees_Inr[OF this] show
    "\<exists>row entry.
       employees db5 = map (\<lambda>r. if e_id r = Some k5 then row else r) (employees db) \<and>
       audit_logs db5 = audit_logs db @ [entry] \<and>
       al_entity_type entry = Some ''employees'' \<and> al_entity_id entry = e_id row"
    by (auto simp: logs_def)
next
  assume "delete_employees env k6 db = Inr db6 \<and>
    find (\<lambda>r. e_id r = Some k6) (employees db) = Some old6"
  then have "delete_employees env k6 db = Inr db6"
    "find (\<lambda>r. e_id r = Some k6) (employees db) = Some old6" by simp_all
  from delete_employees_Inr[OF this] show
    "\<exists>entry.
       employees db6 = filter (\<lambda>r. e_id r \<noteq> Some k6) (employees db) \<and>
       audit_logs db6 = audit_logs db @ [entry] \<and>
       al_entity_type entry = Some ''employees'' \<and> al_entity_id entry = e_id old6"
    by (auto simp: logs_def)
next
  assume "exec_stmt env s db = Inl e"
  then show "commit (exec_stmt env s db) db = db"
    by (simp add: commit_def)
qed


theorem writes_append_one_audit_entry_witness:
  "(insert_cash_advances demo_env demo_new_advance demo_db = Inr demo_inserted_advance \<and>
    update_cash_advances demo_env 20 demo_approve_set demo_db = Inr demo_updated_advance \<and>
    delete_cash_advances demo_env 20 demo_db = Inr demo_deleted_advance \<and>
    insert_employees demo_env demo_new_employee demo_db = Inr demo_inserted_employee \<and>
    update_employees demo_env 11 demo_move_set demo_db = Inr demo_updated_employee \<and>
    delete_employees demo_env 11 demo_db = Inr demo_deleted_employee \<and>
    exec_stmt demo_env (Delete_employees 10) demo_db =
      Inl (ForeignKeyViolation ''employees_supervisor_id_fkey'')) \<and>
   (\<exists>row entry.
      cash_advances demo_updated_advance =
        map (\<lambda>r. if ca_id r = Some 20 then row else r) (cash_advances demo_db) \<and>
      audit_logs demo_updated_advance = audit_logs demo_db @ [entry] \<and>
      al_entity_type entry = Some ''cash_advances'' \<and> al_entity_id entry = ca_id row \<and>
      new_values_status entry = map_option JText (ca_status row)) \<and>
   (\<exists>entry.
      employees demo_deleted_employee = filter (\<lambda>r. e_id r \<noteq> Some 11) (employees demo_db) \<and>
      audit_logs demo_deleted_employee = audit_logs demo_db @ [entry] \<and>
      al_entity_type entry = Some ''employees'' \<and>
      al_entity_id entry = e_id (demo_employee 11 (Some 10))) \<and>
   commit (exec_stmt demo_env (Delete_employees 10) demo_db) demo_db = demo_db"
proof -
  have fails: "exec_stmt demo_env (Delete_employees 10) demo_db =
      Inl (ForeignKeyViolation ''employees_supervisor_id_fkey'')"
    by (simp add: demo_defs e_defs)
  from writes_append_one_audit_entry
    [where env = demo_env and db = demo_db
       and ?r1.0 = demo_new_advance and ?db1.0 = demo_inserted_advance
       and ?k2.0 = 20 and ?upd2.0 = demo_approve_set and ?db2.0 = demo_updated_advance
       and ?old2.0 = "demo_advance ''PENDING''"
       and ?k3.0 = 20 and ?db3.0 = demo_deleted_advance and ?old3.0 = "demo_advance ''PENDING''"
       and ?r4.0 = demo_new_employee and ?db4.0 = demo_inserted_employee
       and ?k5.0 = 11 and ?upd5.0 = demo_move_set and ?db5.0 = demo_updated_employee
       and ?old5.0 = "demo_employee 11 (Some 10)"
       and ?k6.0 = 11 and ?db6.0 = demo_deleted_employee
       and ?old6.0 = "demo_employee 11 (Some 10)"
       and s = "Delete_employees 10"
       and e = "ForeignKeyViolation ''employees_supervisor_id_fkey''"]
    demo_writes demo_finds fails
  show ?thesis by simp
qed

text \<open>
  Claim C4, as stated: the entry holds the full prior row for an update or a delete. The
  trigger fills \<open>old_values\<close> only \<open>WHEN TG_OP = 'DELETE'\<close>: the update of the example
  advance from \<open>PENDING\<close> to \<open>APPROVED\<close> succeeds and its entry has no \<open>old_values\<close>.
\<close>

theorem update_entry_without_old_values:
  "update_cash_advances demo_env 20 demo_approve_set demo_db = Inr demo_updated_advance \<and>
   map ca_status (cash_advances demo_db) = [Some ''PENDING''] \<and>
   map ca_status (cash_advances demo_updated_advance) = [Some ''APPROVED''] \<and>
   map al_action (audit_logs demo_updated_advance) = [Some ''UPDATE''] \<and>
   map al_old_values (audit_logs demo_updated_advance) = [None]"
  by (simp add: demo_result_defs commit_def demo_defs ca_defs audit_defs col_defs)

text \<open>
  Claim C4, amended. The entry of an audited write holds the full prior row in
  \<open>old_values\<close> when the operation is a delete, and nothing there when it is an insert or
  an update; it holds the full new row in \<open>new_values\<close> when the operation is an insert
  or an update, and nothing there when it is a delete. "Full": \<open>row_to_json\<close> loses
  nothing, two rows with the same image are the same row.
\<close>

theorem audit_values_by_operation:
  "(insert_cash_advances env r1 db = Inr db1 \<longrightarrow>
      (\<exists>row entry. cash_advances db1 = cash_advances db @ [row] \<and>
         audit_logs db1 = audit_logs db @ [entry] \<and> al_old_values entry = None \<and>
         al_new_values entry = Some (row_to_json (Cash_advances_row row)))) \<and>
   (update_cash_advances env k2 upd2 db = Inr db2 \<and>
    find (\<lambda>r. ca_id r = Some k2) (cash_advances db) = Some old2 \<longrightarrow>
      (\<exists>row entry.
         cash_advances db2 = map (\<lambda>r. if ca_id r = Some k2 then row else r) (cash_advances db) \<and>
         audit_logs db2 = audit_logs db @ [entry] \<and> al_old_values entry = None \<and>
         al_new_values entry = Some (row_to_json (Cash_advances_row row)))) \<and>
   (delete_cash_advances env k3 db = Inr db3 \<and>
    find (\<lambda>r. ca_id r = Some k3) (cash_advances db) = Some old3 \<longrightarrow>
      (\<exists>entry. audit_logs db3 = audit_logs db @ [entry] \<and>
         al_old_values entry = Some (row_to_json (Cash_advances_row old3)) \<and>
         al_new_values entry = None)) \<and>
   (insert_employees env r4 db = Inr db4 \<longrightarrow>
      (\<exists>row entry. employees db4 = employees db @ [row] \<and>
         audit_logs db4 = audit_logs db @ [entry] \<and> al_old_values entry = None \<and>
         al_new_values entry = Some (row_to_json (Employees_row row)))) \<and>
   (update_employees env k5 upd5 db = Inr db5 \<and>
    find (\<lambda>r. e_id r = Some k5) (employees db) = Some old5 \<longrightarrow>
      (\<exists>row entry.
         employees db5 = map (\<lambda>r. if e_id r = Some k5 then row else r) (employees db) \<and>
         audit_logs db5 = audit_logs db @ [entry] \<and> al_old_values entry = None \<and>
         al_new_values entry = Some (row_to_json (Employees_row row)))) \<and>
   (delete_employees env k6 db = Inr db6 \<and>
    find (\<lambda>r. e_id r = Some k6) (employees db) = Some old6 \<longrightarrow>
      (\<exists>entry. audit_logs db6 = audit_logs db @ [entry] \<and>
         al_old_values entry = Some (row_to_json (Employees_row old6)) \<and>
         al_new_values entry = None)) \<and>
   (\<forall>a b. row_to_json a = row_to_json b \<longrightarrow> a = b)"
proof (intro conjI impI allI)
  assume "insert_cash_advances env r1 db = Inr db1"
  from insert_cash_advances_Inr[OF this] show
    "\<exists>row entry. cash_advances db1 = cash_advances db @ [row] \<and>
       audit_logs db1 = audit_logs db @ [entry] \<and> al_old_values entry = None \<and>
       al_new_values entry = Some (row_to_json (Cash_advances_row row))"
    by (auto simp: logs_def)
next
  assume "update_cash_advances env k2 upd2 db = Inr db2 \<and>
    find (\<lambda>r. ca_id r = Some k2) (cash_advances db) = Some old2"
  then have "update_cash_advances env k2 upd2 db = Inr db2"
    "find (\<lambda>r. ca_id r = Some k2) (cash_advances db) = Some old2" by simp_all
  from update_cash_advances_Inr[OF this] show
    "\<exists>row entry.
       cash_advances db2 = map (\<lambda>r. if ca_id r = Some k2 then row else r) (cash_advances db) \<and>
       audit_logs db2 = audit_logs db @ [entry] \<and> al_old_values entry = None \<and>
       al_new_values entry = Some (row_to_json (Cash_advances_row row))"
    by (auto simp: logs_def)
next
  assume "delete_cash_advances env k3 db = Inr db3 \<and>
    find (\<lambda>r. ca_id r = Some k3) (cash_advances db) = Some old3"
  then have "delete_cash_advances env k3 db = Inr db3"
    "find (\<lambda>r. ca_id r = Some k3) (cash_advances db) = Some old3" by simp_all
  from delete_cash_advances_Inr[OF this] show
    "\<exists>entry. audit_logs db3 = audit_logs db @ [entry] \<and>
       al_old_values entry = Some (row_to_json (Cash_advances_row old3)) \<and>
       al_new_values entry = None"
    by (auto simp: logs_def)
next
  assume "insert_employees env r4 db = Inr db4"
  from insert_employees_Inr[OF this] show
    "\<exists>row entry. employees db4 = employees db @ [row] \<and>
       audit_logs db4 = audit_logs db @ [entry] \<and> al_old_values entry = None \<and>
       al_new_values entry = Some (row_to_json (Employees_row row))"
    by (auto simp: logs_def)
next
  assume "update_employees env k5 upd5 db = Inr db5 \<and>
    find (\<lambda>r. e_id r = Some k5) (employees db) = Some old5"
  then have "update_employees env k5 upd5 db = Inr db5"
    "find (\<lambda>r. e_id r = Some k5) (employees db) = Some old5" by simp_all
  from update_employees_Inr[OF this] show
    "\<exists>row entry.
       employees db5 = map (\<lambda>r. if e_id r = Some k5 then row else r) (employees db) \<and>
       audit_logs db5 = audit_logs db @ [entry] \<and> al_old_values entry = None \<and>
       al_new_values entry = Some (row_to_json (Employees_row row))"
    by (auto simp: logs_def)
next
  assume "delete_employees env k6 db = Inr db6 \<and>
    find (\<lambda>r. e_id r = Some k6) (employees db) = Some old6"
  then have "delete_employees env k6 db = Inr db6"
    "find (\<lambda>r. e_id r = Some k6) (employees db) = Some old6" by simp_all
  from delete_employees_Inr[OF this] show
    "\<exists>entry. audit_logs db6 = audit_logs db @ [entry] \<and>
       al_old_values entry = Some (row_to_json (Employees_row old6)) \<and>
       al_new_values entry = None"
    by (auto simp: logs_def)
next
  fix a b assume "row_to_json a = row_to_json b"
  then show "a = b" by (rule row_to_json_inj)
qed


theorem audit_values_by_operation_witness:
  "(insert_cash_advances demo_env demo_new_advance demo_db = Inr demo_inserted_advance \<and>
    update_cash_advances demo_env 20 demo_approve_set demo_db = Inr demo_updated_advance \<and>
    delete_cash_advances demo_env 20 demo_db = Inr demo_deleted_advance \<and>
    insert_employees demo_env demo_new_employee demo_db = Inr demo_inserted_employee \<and>
    update_employees demo_env 11 demo_move_set demo_db = Inr demo_updated_employee \<and>
    delete_employees demo_env 11 demo_db = Inr demo_deleted_employee) \<and>
   (\<exists>row entry.
      cash_advances demo_updated_advance =
        map (\<lambda>r. if ca_id r = Some 20 then row else r) (cash_advances demo_db) \<and>
      audit_logs demo_updated_advance = audit_logs demo_db @ [entry] \<and>
      al_old_values entry = None \<and>
      al_new_values entry = Some (row_to_json (Cash_advances_row row))) \<and>
   (\<exists>entry.
      audit_logs demo_deleted_employee = audit_logs demo_db @ [entry] \<and>
      al_old_values entry = Some (row_to_json (Employees_row (demo_employee 11 (Some 10)))) \<and>
      al_new_values entry = None)"
proof -
  from audit_values_by_operation
    [where env = demo_env and db = demo_db
       and ?r1.0 = demo_new_advance and ?db1.0 = demo_inserted_advance
       and ?k2.0 = 20 and ?upd2.0 = demo_approve_set and ?db2.0 = demo_updated_advance
       and ?old2.0 = "demo_advance ''PENDING''"
       and ?k3.0 = 20 and ?db3.0 = demo_deleted_advance and ?old3.0 = "demo_advance ''PENDING''"
       and ?r4.0 = demo_new_employee and ?db4.0 = demo_inserted_employee
       and ?k5.0 = 11 and ?upd5.0 = demo_move_set and ?db5.0 = demo_updated_employee
       and ?old5.0 = "demo_employee 11 (Some 10)"
       and ?k6.0 = 11 and ?db6.0 = demo_deleted_employee
       and ?old6.0 = "demo_employee 11 (Some 10)"]
    demo_writes demo_finds
  show ?thesis by simp
qed

section \<open>What every statement preserves\<close>

lemma in_domain_iff: "in_domain v allowed \<longleftrightarrow> v \<noteq> None \<and> check_in v allowed"
  by (cases v) (simp_all add: in_domain_def check_in_def)

lemma users_constraints_None:
  "users_constraints row others = None \<longleftrightarrow>
     u_id row \<noteq> None \<and> u_username row \<noteq> None \<and> u_password_hash row \<noteq> None \<and>
     u_email row \<noteq> None \<and> u_role row \<noteq> None \<and> u_access_level row \<noteq> None \<and>
     check_in (u_role row) [''ADMIN'', ''SUPERVISOR'', ''EMPLOYEE''] \<and>
     u_id row \<notin> set (map u_id others) \<and> u_username row \<notin> set (map u_username others) \<and>
     u_email row \<notin> set (map u_email others)"
  by (simp add: users_constraints_def)

lemma payments_constraints_None:
  "payments_constraints row others = None \<longleftrightarrow>
     p_id row \<noteq> None \<and> p_cash_advance_id row \<noteq> None \<and> p_amount row \<noteq> None \<and>
     check_in (p_payment_type row) [''SALARY_DEDUCTION'', ''CASH'', ''BANK_TRANSFER''] \<and>
     p_id row \<notin> set (map p_id others)"
  by (simp add: payments_constraints_def)

lemma insert_users_Inr:
  assumes "insert_users r db = Inr db'"
  shows "\<exists>row. coerce_users r = Inr row \<and> users_constraints row (users db) = None \<and>
     db' = db\<lparr>users := users db @ [row]\<rparr>"
  using assms by (auto simp: insert_users_def and_then_Inr guard_Inr)

lemma update_users_Inr:
  assumes "update_users k upd db = Inr db'"
  shows "db' = db \<or> (\<exists>old row. find (\<lambda>r. u_id r = Some k) (users db) = Some old \<and>
     coerce_users (upd old) = Inr row \<and>
     users_constraints row (filter (\<lambda>r. u_id r \<noteq> Some k) (users db)) = None \<and>
     db' = db\<lparr>users := map (\<lambda>r. if u_id r = Some k then row else r) (users db)\<rparr>)"
proof (cases "find (\<lambda>r. u_id r = Some k) (users db)")
  case None
  with assms show ?thesis by (simp add: update_users_def)
next
  case (Some old)
  with assms show ?thesis
    by (auto simp: update_users_def and_then_Inr guard_Inr)
qed

lemma delete_users_Inr:
  assumes "delete_users k db = Inr db'"
  shows "db' = db \<or> db' = db\<lparr>users := filter (\<lambda>r. u_id r \<noteq> Some k) (users db)\<rparr>"
  using assms by (auto simp: delete_users_def guard_Inr split: option.splits)

lemma insert_payments_Inr:
  assumes "insert_payments r db = Inr db'"
  shows "\<exists>row. coerce_payments r = Inr row \<and> payments_constraints row (payments db) = None \<and>
     payments_foreign_keys row db = None \<and> db' = db\<lparr>payments := payments db @ [row]\<rparr>"
  using assms by (auto simp: insert_payments_def and_then_Inr guard_Inr)

lemma update_payments_Inr:
  assumes "update_payments k upd db = Inr db'"
  shows "db' = db \<or> (\<exists>old row. find (\<lambda>r. p_id r = Some k) (payments db) = Some old \<and>
     coerce_payments (upd old) = Inr row \<and>
     payments_constraints row (filter (\<lambda>r. p_id r \<noteq> Some k) (payments db)) = None \<and>
     payments_foreign_keys row db = None \<and>
     db' = db\<lparr>payments := map (\<lambda>r. if p_id r = Some k then row else r) (payments db)\<rparr>)"
proof (cases "find (\<lambda>r. p_id r = Some k) (payments db)")
  case None
  with assms show ?thesis by (simp add: update_payments_def)
next
  case (Some old)
  with assms show ?thesis
    by (auto simp: update_payments_def and_then_Inr guard_Inr)
qed

lemma list_all_replace:
  "list_all P xs \<Longrightarrow> P row \<Longrightarrow> list_all P (map (\<lambda>r. if Q r then row else r) xs)"
  by (induction xs) auto

lemma list_all_filter: "list_all P xs \<Longrightarrow> list_all P (filter Q xs)"
  by (induction xs) auto

lemma update_cash_advances_effect:
  assumes "update_cash_advances env k upd db = Inr db'"
  shows "db' = db \<or> (\<exists>old row entry.
       find (\<lambda>r. ca_id r = Some k) (cash_advances db) = Some old
     \<and> coerce_cash_advances (upd old) = Inr row
     \<and> cash_advances_constraints row (filter (\<lambda>r. ca_id r \<noteq> Some k) (cash_advances db)) = None
     \<and> cash_advances_foreign_keys row
          (db\<lparr>cash_advances := map (\<lambda>r. if ca_id r = Some k then row else r) (cash_advances db)\<rparr>) = None
     \<and> db' = db\<lparr>cash_advances := map (\<lambda>r. if ca_id r = Some k then row else r) (cash_advances db),
                 audit_logs := audit_logs db @ [entry]\<rparr>)"
proof (cases "find (\<lambda>r. ca_id r = Some k) (cash_advances db)")
  case None
  with assms show ?thesis by (simp add: update_cash_advances_def)
next
  case (Some old)
  from update_cash_advances_Inr[OF assms Some] Some show ?thesis by blast
qed

lemma delete_cash_advances_effect:
  assumes "delete_cash_advances env k db = Inr db'"
  shows "db' = db \<or> (\<exists>entry. Some k \<notin> set (map p_cash_advance_id (payments db))
     \<and> db' = db\<lparr>cash_advances := filter (\<lambda>r. ca_id r \<noteq> Some k) (cash_advances db),
                 audit_logs := audit_logs db @ [entry]\<rparr>)"
proof (cases "find (\<lambda>r. ca_id r = Some k) (cash_advances db)")
  case None
  with assms show ?thesis by (simp add: delete_cash_advances_def)
next
  case (Some old)
  from delete_cash_advances_Inr[OF assms Some] show ?thesis by blast
qed

lemma update_employees_effect:
  assumes "update_employees env k upd db = Inr db'"
  shows "db' = db \<or> (\<exists>old row entry.
       find (\<lambda>r. e_id r = Some k) (employees db) = Some old
     \<and> coerce_employees (upd old) = Inr row
     \<and> employees_constraints row (filter (\<lambda>r. e_id r \<noteq> Some k) (employees db)) = None
     \<and> db' = db\<lparr>employees := map (\<lambda>r. if e_id r = Some k then row else r) (employees db),
                 audit_logs := audit_logs db @ [entry]\<rparr>)"
proof (cases "find (\<lambda>r. e_id r = Some k) (employees db)")
  case None
  with assms show ?thesis by (simp add: update_employees_def)
next
  case (Some old)
  from update_employees_Inr[OF assms Some] Some show ?thesis by blast
qed

lemma delete_employees_effect:
  assumes "delete_employees env k db = Inr db'"
  shows "db' = db \<or> (\<exists>entry.
       Some k \<notin> set (map e_supervisor_id (filter (\<lambda>r. e_id r \<noteq> Some k) (employees db)))
     \<and> Some k \<notin> set (map ca_employee_id (cash_advances db))
     \<and> db' = db\<lparr>employees := filter (\<lambda>r. e_id r \<noteq> Some k) (employees db),
                 audit_logs := audit_logs db @ [entry]\<rparr>)"
proof (cases "find (\<lambda>r. e_id r = Some k) (employees db)")
  case None
  with assms show ?thesis by (simp add: delete_employees_def)
next
  case (Some old)
  from delete_employees_Inr[OF assms Some] show ?thesis by blast
qed

text \<open>
  A property of every row that passes the constraints of its table holds of every row of
  the table after any statement, if it held before.
\<close>

lemma exec_stmt_users_all:
  assumes "exec_stmt env s db = Inr db'" and "list_all P (users db)"
    and "\<And>row others. users_constraints row others = None \<Longrightarrow> P row"
  shows "list_all P (users db')"
proof (cases s)
  case (Insert_users r)
  with assms insert_users_Inr[of r db db'] show ?thesis by auto
next
  case (Update_users k upd)
  with assms update_users_Inr[of k upd db db'] show ?thesis
    by (auto simp: list_all_replace)
next
  case (Delete_users k)
  with assms delete_users_Inr[of k db db'] show ?thesis by (auto simp: list_all_filter)
next
  case (Insert_employees r)
  with assms insert_employees_Inr[of env r db db'] show ?thesis by auto
next
  case (Update_employees k upd)
  with assms update_employees_effect[of env k upd db db'] show ?thesis by auto
next
  case (Delete_employees k)
  with assms delete_employees_effect[of env k db db'] show ?thesis by auto
next
  case (Insert_cash_advances r)
  with assms insert_cash_advances_Inr[of env r db db'] show ?thesis by auto
next
  case (Update_cash_advances k upd)
  with assms update_cash_advances_effect[of env k upd db db'] show ?thesis by auto
next
  case (Delete_cash_advances k)
  with assms delete_cash_advances_effect[of env k db db'] show ?thesis by auto
next
  case (Insert_payments r)
  with assms insert_payments_Inr[of r db db'] show ?thesis by auto
next
  case (Update_payments k upd)
  with assms update_payments_Inr[of k upd db db'] show ?thesis by auto
next
  case (Delete_payments k)
  with assms show ?thesis by (auto simp: delete_payments_def)
qed

lemma exec_stmt_cash_advances_all:
  assumes "exec_stmt env s db = Inr db'" and "list_all P (cash_advances db)"
    and "\<And>r row others. coerce_cash_advances r = Inr row \<Longrightarrow>
           cash_advances_constraints row others = None \<Longrightarrow> P row"
  shows "list_all P (cash_advances db')"
proof (cases s)
  case (Insert_users r)
  with assms insert_users_Inr[of r db db'] show ?thesis by auto
next
  case (Update_users k upd)
  with assms update_users_Inr[of k upd db db'] show ?thesis by auto
next
  case (Delete_users k)
  with assms delete_users_Inr[of k db db'] show ?thesis by auto
next
  case (Insert_employees r)
  with assms insert_employees_Inr[of env r db db'] show ?thesis by auto
next
  case (Update_employees k upd)
  with assms update_employees_effect[of env k upd db db'] show ?thesis by auto
next
  case (Delete_employees k)
  with assms delete_employees_effect[of env k db db'] show ?thesis by auto
next
  case (Insert_cash_advances r)
  with assms insert_cash_advances_Inr[of env r db db'] show ?thesis by auto
next
  case (Update_cash_advances k upd)
  with assms update_cash_advances_effect[of env k upd db db'] show ?thesis
    by (auto simp: list_all_replace)
next
  case (Delete_cash_advances k)
  with assms delete_cash_advances_effect[of env k db db'] show ?thesis
    by (auto simp: list_all_filter)
next
  case (Insert_payments r)
  with assms insert_payments_Inr[of r db db'] show ?thesis by auto
next
  case (Update_payments k upd)
  with assms update_payments_Inr[of k upd db db'] show ?thesis by auto
next
  case (Delete_payments k)
  with assms show ?thesis by (auto simp: delete_payments_def)
qed

lemma exec_stmt_payments_all:
  assumes "exec_stmt env s db = Inr db'" and "list_all P (payments db)"
    and "\<And>r row others. coerce_payments r = Inr row \<Longrightarrow>
           payments_constraints row others = None \<Longrightarrow> P row"
  shows "list_all P (payments db')"
proof (cases s)
  case (Insert_users r)
  with assms insert_users_Inr[of r db db'] show ?thesis by auto
next
  case (Update_users k upd)
  with assms update_users_Inr[of k upd db db'] show ?thesis by auto
next
  case (Delete_users k)
  with assms delete_users_Inr[of k db db'] show ?thesis by auto
next
  case (Insert_employees r)
  with assms insert_employees_Inr[of env r db db'] show ?thesis by auto
next
  case (Update_employees k upd)
  with assms update_employees_effect[of env k upd db db'] show ?thesis by auto
next
  case (Delete_employees k)
  with assms delete_employees_effect[of env k db db'] show ?thesis by auto
next
  case (Insert_cash_advances r)
  with assms insert_cash_advances_Inr[of env r db db'] show ?thesis by auto
next
  case (Update_cash_advances k upd)
  with assms update_cash_advances_effect[of env k upd db db'] show ?thesis by auto
next
  case (Delete_cash_advances k)
  with assms delete_cash_advances_effect[of env k db db'] show ?thesis by auto
next
  case (Insert_payments r)
  with assms insert_payments_Inr[of r db db'] show ?thesis by auto
next
  case (Update_payments k upd)
  with assms update_payments_Inr[of k upd db db'] show ?thesis
    by (auto simp: list_all_replace)
next
  case (Delete_payments k)
  with assms show ?thesis by (auto simp: delete_payments_def list_all_filter)
qed

lemma exec_stmt_enumerated_domains:
  assumes "exec_stmt env s db = Inr db'" and "enumerated_domains db"
  shows "enumerated_domains db'"
  using assms(2) unfolding enumerated_domains_def
  by (intro conjI exec_stmt_users_all[OF assms(1)] exec_stmt_cash_advances_all[OF assms(1)]
      exec_stmt_payments_all[OF assms(1)])
    (simp_all add: in_domain_iff users_constraints_None cash_advances_constraints_None
      payments_constraints_None)

lemma run_enumerated_domains: "enumerated_domains db \<Longrightarrow> enumerated_domains (run stmts db)"
proof (induction stmts arbitrary: db)
  case Nil
  then show ?case by simp
next
  case (Cons a stmts)
  obtain env s where a: "a = (env, s)" by (cases a)
  have "enumerated_domains (commit (exec_stmt env s db) db)"
    using Cons.prems exec_stmt_enumerated_domains[of env s db]
    by (cases "exec_stmt env s db") (simp_all add: commit_def)
  with Cons.IH a show ?case by simp
qed

lemma schema_init_value:
  "schema_init env = Inr (empty_db\<lparr>users := [administrator env]\<rparr>)"
  by (simp add: schema_init_def administrator_def u_defs empty_db_def col_defs)

lemma schema_init_seeded: "schema_init (session 100) = Inr seeded"
  by (simp add: seeded_def commit_def schema_init_value)

section \<open>Claim about the enumerated domains\<close>

text \<open>
  Claim C8, as stated: no payment row has a payment type outside the three values. The
  column \<open>payment_type\<close> has the \<open>CHECK\<close> but, unlike \<open>role\<close> and \<open>status\<close>, no
  \<open>NOT NULL\<close>, and a \<open>CHECK\<close> passes on \<open>NULL\<close>: after the schema script, an employee, an
  advance and then a payment without a type are all accepted, and the stored payment has
  no type.
\<close>

theorem payment_without_type_is_stored:
  "schema_init (session 100) = Inr seeded \<and>
   map p_amount (payments (run untyped_payment_script seeded)) = [Some 50] \<and>
   map p_payment_type (payments (run untyped_payment_script seeded)) = [None] \<and>
   \<not> in_domain None [''SALARY_DEDUCTION'', ''CASH'', ''BANK_TRANSFER'']"
  by (simp add: schema_init_seeded)
    (simp add: seeded_def schema_init_value administrator_def u_defs untyped_payment_script_def untyped_payment_def
      session_def commit_def empty_db_def demo_defs e_defs ca_defs p_defs audit_defs col_defs
      in_domain_def)

text \<open>
  Claim C8, amended. In every state reached from the schema script by any statements, each
  user's role is one of ADMIN, SUPERVISOR, EMPLOYEE, each advance's status is one of
  PENDING, APPROVED, REJECTED, PAID, and each payment's type is absent or one of
  SALARY_DEDUCTION, CASH, BANK_TRANSFER.
\<close>

theorem enumerated_domains_hold:
  assumes "schema_init env = Inr db"
  shows "enumerated_domains (run stmts db)"
proof -
  from assms have "enumerated_domains db"
    by (auto simp: schema_init_value administrator_def users_default_def
        enumerated_domains_def empty_db_def in_domain_def)
  then show ?thesis by (rule run_enumerated_domains)
qed

theorem enumerated_domains_hold_witness:
  "schema_init (session 100) = Inr seeded \<and>
   enumerated_domains (run untyped_payment_script seeded)"
  using enumerated_domains_hold[of "session 100" seeded untyped_payment_script]
    schema_init_seeded
  by simp

section \<open>Claim about the seeded administrator\<close>

text \<open>
  Claim C10. The schema script leaves exactly one row in \<open>users\<close>: username \<open>admin\<close>, email
  \<open>admin@sakada.com\<close>, role ADMIN, access level 10, active by the column default, and the
  password hash written in the script. That text has the shape of a bcrypt hash with cost
  12 (sixty characters after the prefix \<open>$2a$12$\<close> is counted in), but it is not the one
  bcrypt gives for \<open>admin123\<close> with the salt it carries, although the comment beside it
  says so.
\<close>

theorem schema_init_administrator:
  "schema_init env = Inr (empty_db\<lparr>users := [administrator env]\<rparr>) \<and>
   u_username (administrator env) = Some ''admin'' \<and>
   u_email (administrator env) = Some ''admin@sakada.com'' \<and>
   u_role (administrator env) = Some ''ADMIN'' \<and>
   u_access_level (administrator env) = Some 10 \<and>
   u_is_active (administrator env) = Some True \<and>
   map_option length (u_password_hash (administrator env)) = Some 60 \<and>
   map_option (take 7) (u_password_hash (administrator env)) = Some ''$2a$12$'' \<and>
   map_option (take 29) (u_password_hash (administrator env)) = Some (take 29 bcrypt_admin123) \<and>
   u_password_hash (administrator env) \<noteq> Some bcrypt_admin123"
  by (simp add: schema_init_value)
    (simp add: administrator_def users_default_def bcrypt_admin123_def)

theorem schema_init_administrator_witness:
  "schema_init (session 100) = Inr (empty_db\<lparr>users := [administrator (session 100)]\<rparr>) \<and>
   u_id (administrator (session 100)) = Some 100 \<and>
   u_username (administrator (session 100)) = Some ''admin'' \<and>
   u_is_active (administrator (session 100)) = Some True \<and>
   u_password_hash (administrator (session 100)) \<noteq> Some bcrypt_admin123"
  using schema_init_administrator[of "session 100"]
  by (simp add: administrator_def users_default_def session_def)

section \<open>The summary view\<close>

lemma filter_key_unique:
  "distinct (map f xs) \<Longrightarrow> x \<in> set xs \<Longrightarrow> filter (\<lambda>y. f y = f x) xs = [x]"
proof (induction xs)
  case Nil
  then show ?case by simp
next
  case (Cons a xs)
  show ?case
  proof (cases "a = x")
    case True
    with Cons.prems have "f x \<notin> set (map f xs)" by simp
    then have "filter (\<lambda>y. f y = f x) xs = []" by (rule filter_key_empty)
    with True show ?thesis by simp
  next
    case False
    with Cons.prems have x: "x \<in> set xs" by simp
    with Cons.prems(1) have "f a \<noteq> f x" by (metis distinct.simps(2) image_eqI list.simps(9) set_map)
    with Cons x show ?thesis by simp
  qed
qed

lemma concat_map_unique:
  assumes "distinct (map f xs)" and "x \<in> set xs"
    and "\<And>y. y \<in> set xs \<Longrightarrow> f y \<noteq> f x \<Longrightarrow> G y = []"
  shows "concat (map G xs) = G x"
  using assms
proof (induction xs)
  case Nil
  then show ?case by simp
next
  case (Cons a xs)
  show ?case
  proof (cases "a = x")
    case True
    with Cons.prems(1) have "f x \<notin> f ` set xs" by simp
    then have "\<forall>y \<in> set xs. f y \<noteq> f x" by (metis image_eqI)
    with Cons.prems(3) have "\<forall>y \<in> set xs. G y = []" by simp
    then have "concat (map G xs) = []" by simp
    with True show ?thesis by simp
  next
    case False
    with Cons.prems have x: "x \<in> set xs" by simp
    with Cons.prems(1) have "f a \<noteq> f x" by (metis distinct.simps(2) image_eqI list.simps(9) set_map)
    with Cons.prems(3) have "G a = []" by simp
    moreover have "concat (map G xs) = G x"
      using Cons.IH Cons.prems(1,3) x by simp
    ultimately show ?thesis by simp
  qed
qed

lemma sql_eq_Some [simp]: "sql_eq (Some k) v \<longleftrightarrow> v = Some k"
  by (cases v) (auto simp: sql_eq_def)

lemma sum_agg_amounts:
  "coalesce (sum_agg (map p_amount ps)) (Some 0) = Some (sum_list (List.map_filter p_amount ps))"
proof -
  have "List.map_filter (\<lambda>v. v) (map p_amount ps) = List.map_filter p_amount ps"
    by (simp add: map_filter_def comp_def) (induction ps, auto)
  then show ?thesis
    by (cases "List.map_filter p_amount ps") (simp_all add: sum_agg_def coalesce_def)
qed


lemma left_join_payments_rows:
  assumes "ca_id ca = Some k"
  shows "left_join_payments db ca e \<noteq> []"
    and "\<forall>j \<in> set (left_join_payments db ca e). j = (ca, e, snd (snd j))"
    and "summary_of_group (left_join_payments db ca e) = [summary_row_of ca e (total_paid k db)]"
proof -
  let ?ps = "filter (\<lambda>p. p_cash_advance_id p = Some k) (payments db)"
  have lj: "left_join_payments db ca e =
      (case ?ps of [] \<Rightarrow> [(ca, e, None)] | p # ps \<Rightarrow> map (\<lambda>p. (ca, e, Some p)) ?ps)"
    using assms by (simp add: left_join_payments_def split: list.splits)
  show "left_join_payments db ca e \<noteq> []"
    unfolding lj by (cases ?ps) simp_all
  show "\<forall>j \<in> set (left_join_payments db ca e). j = (ca, e, snd (snd j))"
    unfolding lj by (cases ?ps) auto
  show "summary_of_group (left_join_payments db ca e) = [summary_row_of ca e (total_paid k db)]"
  proof (cases ?ps)
    case Nil
    then show ?thesis
      unfolding lj
      by (simp add: summary_of_group_def summary_row_of_def total_paid_def sum_agg_def
          coalesce_def minus_numeric_def map_filter_def split: option.splits)
  next
    case (Cons p ps)
    have amounts: "map (\<lambda>j. case j of (ca', e', p') \<Rightarrow> Option.bind p' p_amount)
        (map (\<lambda>p. (ca, e, Some p)) ?ps) = map p_amount ?ps"
      by simp
    have "summary_of_group (map (\<lambda>p. (ca, e, Some p)) ?ps) =
        [summary_row_of ca e (total_paid k db)]"
      using Cons sum_agg_amounts[of ?ps]
      by (simp add: summary_of_group_def summary_row_of_def total_paid_def amounts
          minus_numeric_def Let_def comp_def split: option.splits)
    with Cons show ?thesis unfolding lj by simp
  qed
qed


lemma distinct_key_eq:
  "distinct (map f xs) \<Longrightarrow> x \<in> set xs \<Longrightarrow> y \<in> set xs \<Longrightarrow> f x = f y \<Longrightarrow> x = y"
  by (meson distinct_map inj_onD)

lemma left_join_payments_fst: "j \<in> set (left_join_payments db c e) \<Longrightarrow> fst j = c"
  by (cases "filter (\<lambda>p. sql_eq (ca_id c) (p_cash_advance_id p)) (payments db)")
    (auto simp: left_join_payments_def)

lemma cash_advance_summary_row:
  assumes valid: "keys_valid db" and ca: "ca \<in> set (cash_advances db)"
  shows "\<exists>k e. ca_id ca = Some k \<and> e \<in> set (employees db) \<and> e_id e = ca_employee_id ca \<and>
     filter (\<lambda>s. s_id s = Some k) (cash_advance_summary db) =
       [summary_row_of ca e (total_paid k db)]"
proof -
  let ?cas = "cash_advances db"
  let ?R = "\<lambda>c. concat (map (left_join_payments db c)
              (filter (\<lambda>e. sql_eq (ca_employee_id c) (e_id e)) (employees db)))"
  have dca: "distinct (map ca_id ?cas)" and de: "distinct (map e_id (employees db))"
    using valid by (simp_all add: keys_valid_def)
  from valid ca have row: "ca_id ca \<noteq> None \<and> ca_employee_id ca \<noteq> None \<and>
      ca_employee_id ca \<in> set (map e_id (employees db))"
    unfolding keys_valid_def list_all_iff by blast
  then obtain k eid where k: "ca_id ca = Some k" and eid: "ca_employee_id ca = Some eid"
    by blast
  with row have "Some eid \<in> e_id ` set (employees db)" by simp
  then obtain e where e: "e \<in> set (employees db)" "e_id e = Some eid"
    by (metis imageE)
  have "filter (\<lambda>e'. sql_eq (ca_employee_id ca) (e_id e')) (employees db) =
      filter (\<lambda>e'. e_id e' = e_id e) (employees db)"
    using eid e(2) by simp
  also have "\<dots> = [e]" using de e(1) by (rule filter_key_unique)
  finally have Rca: "?R ca = left_join_payments db ca e" by simp
  note lj = left_join_payments_rows[OF k, of db e]
  let ?key = "(Some k, e_first_name e, e_last_name e)"
  have joined: "joined db = concat (map ?R ?cas)"
    by (simp add: joined_def)
  have fst_R: "fst j = c" if "j \<in> set (?R c)" for j c
    using that by (auto dest: left_join_payments_fst)
  have key_R: "group_key j = ?key" if "j \<in> set (?R ca)" for j
  proof -
    from that lj(2) Rca have "j = (ca, e, snd (snd j))" by simp
    then show ?thesis using k by (metis (no_types, lifting) group_key_def old.prod.case)
  qed
  have other: "filter (\<lambda>j. group_key j = ?key) (?R c) = []"
    if "c \<in> set ?cas" "ca_id c \<noteq> ca_id ca" for c
  proof -
    have "group_key j \<noteq> ?key" if "j \<in> set (?R c)" for j
    proof -
      from fst_R[OF that] have "fst (group_key j) = ca_id c"
        by (cases j) (auto simp: group_key_def)
      with \<open>ca_id c \<noteq> ca_id ca\<close> k show ?thesis by auto
    qed
    then show ?thesis by (simp add: filter_empty_conv)
  qed
  have group: "filter (\<lambda>j. group_key j = ?key) (joined db) = ?R ca"
  proof -
    have "filter (\<lambda>j. group_key j = ?key) (joined db) =
        concat (map (\<lambda>c. filter (\<lambda>j. group_key j = ?key) (?R c)) ?cas)"
      unfolding joined by (simp add: filter_concat comp_def)
    also have "\<dots> = filter (\<lambda>j. group_key j = ?key) (?R ca)"
      using dca ca other by (rule concat_map_unique)
    also have "\<dots> = ?R ca"
      using key_R by (simp add: filter_id_conv)
    finally show ?thesis .
  qed
  have key_in: "?key \<in> set (map group_key (joined db))"
  proof -
    define j where "j = hd (?R ca)"
    from lj(1) Rca have j: "j \<in> set (?R ca)" unfolding j_def by simp
    with ca have "j \<in> set (joined db)" unfolding joined by auto
    with key_R[OF j] show ?thesis by force
  qed
  have others: "filter (\<lambda>s. s_id s = Some k)
        (summary_of_group (filter (\<lambda>j. group_key j = k') (joined db))) = []"
    if k': "k' \<in> set (remdups (map group_key (joined db)))" "id k' \<noteq> id ?key" for k'
  proof (cases "filter (\<lambda>j. group_key j = k') (joined db)")
    case Nil
    then show ?thesis by (simp add: summary_of_group_def)
  next
    case (Cons j rest)
    then have "j \<in> set (filter (\<lambda>j. group_key j = k') (joined db))" by simp
    then have j: "j \<in> set (joined db)" "group_key j = k'" by simp_all
    obtain c e' p' where jc: "j = (c, e', p')" by (cases j)
    from j(1) obtain c' where c': "c' \<in> set ?cas" "j \<in> set (?R c')"
      unfolding joined by auto
    with fst_R[OF c'(2)] jc have c: "c \<in> set ?cas" "j \<in> set (?R c)" by auto
    have "ca_id c \<noteq> Some k"
    proof
      assume "ca_id c = Some k"
      with k have "ca_id c = ca_id ca" by simp
      with dca c(1) ca have "c = ca" by (rule distinct_key_eq)
      with c(2) key_R j(2) k'(2) show False by auto
    qed
    with Cons jc show ?thesis
      by (simp add: summary_of_group_def Let_def)
  qed
  have "filter (\<lambda>s. s_id s = Some k) (cash_advance_summary db) =
      concat (map (\<lambda>k'. filter (\<lambda>s. s_id s = Some k)
        (summary_of_group (filter (\<lambda>j. group_key j = k') (joined db))))
        (remdups (map group_key (joined db))))"
    by (simp add: cash_advance_summary_def filter_concat comp_def)
  also have "\<dots> = filter (\<lambda>s. s_id s = Some k)
        (summary_of_group (filter (\<lambda>j. group_key j = ?key) (joined db)))"
  proof (rule concat_map_unique[where f = id])
    show "distinct (map id (remdups (map group_key (joined db))))" by simp
    show "?key \<in> set (remdups (map group_key (joined db)))" using key_in by simp
  qed (rule others)
  also have "\<dots> = [summary_row_of ca e (total_paid k db)]"
    using group Rca lj(3) k by (simp add: summary_row_of_def)
  finally show ?thesis using k e eid by auto
qed

section \<open>The keys hold in every state\<close>

text \<open>
  The primary keys of \<open>employees\<close> and \<open>cash_advances\<close> and the foreign key
  \<open>cash_advances.employee_id\<close> hold in the state the schema script leaves, and every
  statement keeps them.
\<close>

lemma distinct_replace:
  assumes "distinct (map f xs)" and "f row \<notin> set (map f (filter (\<lambda>r. f r \<noteq> v) xs))"
  shows "distinct (map f (map (\<lambda>r. if f r = v then row else r) xs))"
  using assms
proof (induction xs)
  case Nil
  then show ?case by simp
next
  case (Cons x xs)
  show ?case
  proof (cases "f x = v")
    case True
    with Cons.prems(1) have "v \<notin> set (map f xs)" by auto
    then have same: "map (\<lambda>r. if f r = v then row else r) xs = xs"
      and all: "filter (\<lambda>r. f r \<noteq> v) xs = xs"
      by (induction xs) auto
    from Cons.prems True all have "f row \<notin> set (map f xs)" by simp
    with Cons.prems(1) True same show ?thesis by simp
  next
    case False
    from Cons.prems False have ih: "distinct (map f (map (\<lambda>r. if f r = v then row else r) xs))"
      using Cons.IH by simp
    from Cons.prems False have "f x \<noteq> f row" by auto
    moreover from Cons.prems(1) have "f x \<notin> set (map f xs)" by simp
    ultimately have "f x \<notin> set (map f (map (\<lambda>r. if f r = v then row else r) xs))"
      by (auto simp: image_iff)
    with ih False show ?thesis by simp
  qed
qed

lemma set_replace_keys:
  assumes "a \<in> set (map f xs)" and "a \<noteq> v"
  shows "a \<in> set (map f (map (\<lambda>r. if f r = v then row else r) xs))"
  using assms by (induction xs) auto

lemma set_replace_same:
  assumes "a \<in> set (map f xs)" and "f row = v"
  shows "a \<in> set (map f (map (\<lambda>r. if f r = v then row else r) xs))"
  using assms by (induction xs) auto

lemma set_filter_keys:
  assumes "a \<in> set (map f xs)" and "a \<noteq> v"
  shows "a \<in> set (map f (filter (\<lambda>r. f r \<noteq> v) xs))"
  using assms by (induction xs) auto

lemma update_employees_referenced:
  assumes "update_employees env k upd db = Inr db'"
    and "find (\<lambda>r. e_id r = Some k) (employees db) = Some old"
    and "coerce_employees (upd old) = Inr row" and "e_id row \<noteq> Some k"
  shows "Some k \<notin> set (map ca_employee_id (cash_advances db))"
proof -
  from assms have "employees_referenced k
      (db\<lparr>employees := map (\<lambda>r. if e_id r = Some k then row else r) (employees db)\<rparr>) = None"
    by (auto simp: update_employees_def and_then_Inr guard_Inr Let_def split: option.splits)
  then show ?thesis by (simp add: employees_referenced_def split: if_splits)
qed

lemma keys_valid_alt:
  "keys_valid db \<longleftrightarrow> distinct (map ca_id (cash_advances db)) \<and> distinct (map e_id (employees db))
     \<and> (\<forall>c \<in> set (cash_advances db). ca_id c \<noteq> None \<and> ca_employee_id c \<noteq> None \<and>
           ca_employee_id c \<in> set (map e_id (employees db)))"
  by (simp add: keys_valid_def list_all_iff)

lemma keys_valid_frame:
  assumes "keys_valid db" and "cash_advances db' = cash_advances db"
    and "employees db' = employees db"
  shows "keys_valid db'"
  using assms by (simp add: keys_valid_def)

lemma insert_employees_keys_valid:
  assumes "insert_employees env r db = Inr db'" and "keys_valid db"
  shows "keys_valid db'"
proof -
  from insert_employees_Inr[OF assms(1)] obtain row entry where
    c: "employees_constraints row (employees db) = None"
    and d: "db' = db\<lparr>employees := employees db @ [row], audit_logs := audit_logs db @ [entry]\<rparr>"
    by blast
  from c have "e_id row \<notin> set (map e_id (employees db))"
    by (simp add: employees_constraints_def split: if_splits)
  with assms(2) d show ?thesis by (auto simp: keys_valid_alt)
qed

lemma update_employees_keys_valid:
  assumes "update_employees env k upd db = Inr db'" and "keys_valid db"
  shows "keys_valid db'"
proof -
  from update_employees_effect[OF assms(1)] show ?thesis
  proof
    assume "db' = db"
    with assms(2) show ?thesis by simp
  next
    assume "\<exists>old row entry.
       find (\<lambda>r. e_id r = Some k) (employees db) = Some old
     \<and> coerce_employees (upd old) = Inr row
     \<and> employees_constraints row (filter (\<lambda>r. e_id r \<noteq> Some k) (employees db)) = None
     \<and> db' = db\<lparr>employees := map (\<lambda>r. if e_id r = Some k then row else r) (employees db),
                 audit_logs := audit_logs db @ [entry]\<rparr>"
    then obtain old row entry where
      f: "find (\<lambda>r. e_id r = Some k) (employees db) = Some old"
      and co: "coerce_employees (upd old) = Inr row"
      and c: "employees_constraints row (filter (\<lambda>r. e_id r \<noteq> Some k) (employees db)) = None"
      and d: "db' = db\<lparr>employees := map (\<lambda>r. if e_id r = Some k then row else r) (employees db),
                 audit_logs := audit_logs db @ [entry]\<rparr>"
      by blast
    let ?es = "map (\<lambda>r. if e_id r = Some k then row else r) (employees db)"
    from c have fresh: "e_id row \<notin> set (map e_id (filter (\<lambda>r. e_id r \<noteq> Some k) (employees db)))"
      by (simp add: employees_constraints_def split: if_splits)
    from assms(2) have dist: "distinct (map e_id (employees db))" by (simp add: keys_valid_alt)
    have d1: "distinct (map e_id ?es)" by (rule distinct_replace[OF dist fresh])
    have refs: "ca_employee_id c \<in> set (map e_id ?es)" if "c \<in> set (cash_advances db)" for c
    proof (cases "e_id row = Some k")
      case True
      from that assms(2) have "ca_employee_id c \<in> set (map e_id (employees db))"
        by (simp add: keys_valid_alt)
      then show ?thesis by (rule set_replace_same) (rule True)
    next
      case False
      from update_employees_referenced[OF assms(1) f co False] that
      have "ca_employee_id c \<noteq> Some k" by (metis image_eqI set_map)
      moreover from that assms(2) have "ca_employee_id c \<in> set (map e_id (employees db))"
        by (simp add: keys_valid_alt)
      ultimately show ?thesis by (rule set_replace_keys[rotated])
    qed
    from assms(2) d d1 refs show ?thesis by (simp add: keys_valid_alt)
  qed
qed

lemma delete_employees_keys_valid:
  assumes "delete_employees env k db = Inr db'" and "keys_valid db"
  shows "keys_valid db'"
proof -
  from delete_employees_effect[OF assms(1)] show ?thesis
  proof
    assume "db' = db"
    with assms(2) show ?thesis by simp
  next
    assume "\<exists>entry.
       Some k \<notin> set (map e_supervisor_id (filter (\<lambda>r. e_id r \<noteq> Some k) (employees db)))
     \<and> Some k \<notin> set (map ca_employee_id (cash_advances db))
     \<and> db' = db\<lparr>employees := filter (\<lambda>r. e_id r \<noteq> Some k) (employees db),
                 audit_logs := audit_logs db @ [entry]\<rparr>"
    then obtain entry where
      nr: "Some k \<notin> set (map ca_employee_id (cash_advances db))"
      and d: "db' = db\<lparr>employees := filter (\<lambda>r. e_id r \<noteq> Some k) (employees db),
                 audit_logs := audit_logs db @ [entry]\<rparr>"
      by blast
    have refs: "ca_employee_id c \<in> set (map e_id (filter (\<lambda>r. e_id r \<noteq> Some k) (employees db)))"
      if "c \<in> set (cash_advances db)" for c
    proof -
      from nr that have "ca_employee_id c \<noteq> Some k" by (metis image_eqI set_map)
      moreover from that assms(2) have "ca_employee_id c \<in> set (map e_id (employees db))"
        by (simp add: keys_valid_alt)
      ultimately show ?thesis by (rule set_filter_keys[rotated])
    qed
    from assms(2) have "distinct (map e_id (filter (\<lambda>r. e_id r \<noteq> Some k) (employees db)))"
      by (simp add: keys_valid_alt distinct_map_filter)
    with assms(2) d refs show ?thesis by (simp add: keys_valid_alt)
  qed
qed

lemma cash_advances_row_keyed:
  assumes "cash_advances_constraints row others = None"
    and "cash_advances_foreign_keys row db1 = None"
  shows "ca_id row \<noteq> None \<and> ca_employee_id row \<noteq> None
     \<and> ca_employee_id row \<in> set (map e_id (employees db1))
     \<and> ca_id row \<notin> set (map ca_id others)"
proof -
  from assms(1) have a: "ca_id row \<noteq> None" "ca_employee_id row \<noteq> None"
    "ca_id row \<notin> set (map ca_id others)"
    by (simp_all add: cash_advances_constraints_None)
  from assms(2) have "references (ca_employee_id row) (map e_id (employees db1))"
    by (simp add: cash_advances_foreign_keys_def split: if_splits)
  with a(2) have "ca_employee_id row \<in> set (map e_id (employees db1))"
    by (cases "ca_employee_id row") (simp_all add: references_def)
  with a show ?thesis by simp
qed

lemma insert_cash_advances_keys_valid:
  assumes "insert_cash_advances env r db = Inr db'" and "keys_valid db"
  shows "keys_valid db'"
proof -
  from insert_cash_advances_Inr[OF assms(1)] obtain row entry where
    c: "cash_advances_constraints row (cash_advances db) = None"
    and fk: "cash_advances_foreign_keys row (db\<lparr>cash_advances := cash_advances db @ [row]\<rparr>) = None"
    and d: "db' = db\<lparr>cash_advances := cash_advances db @ [row],
                      audit_logs := audit_logs db @ [entry]\<rparr>"
    by blast
  from cash_advances_row_keyed[OF c fk] assms(2) d show ?thesis
    by (simp add: keys_valid_alt)
qed

lemma update_cash_advances_keys_valid:
  assumes "update_cash_advances env k upd db = Inr db'" and "keys_valid db"
  shows "keys_valid db'"
proof (cases "find (\<lambda>r. ca_id r = Some k) (cash_advances db)")
  case None
  with assms show ?thesis by (simp add: update_cash_advances_def)
next
  case (Some old)
  let ?cs = "map (\<lambda>r. if ca_id r = Some k then row else r) (cash_advances db)"
  from update_cash_advances_Inr[OF assms(1) Some] obtain row entry where
    c: "cash_advances_constraints row (filter (\<lambda>r. ca_id r \<noteq> Some k) (cash_advances db)) = None"
    and fk: "cash_advances_foreign_keys row
          (db\<lparr>cash_advances := map (\<lambda>r. if ca_id r = Some k then row else r) (cash_advances db)\<rparr>) = None"
    and d: "db' = db\<lparr>cash_advances := map (\<lambda>r. if ca_id r = Some k then row else r) (cash_advances db),
                 audit_logs := audit_logs db @ [entry]\<rparr>"
    by blast
  note keyed = cash_advances_row_keyed[OF c fk]
  from assms(2) have dist: "distinct (map ca_id (cash_advances db))" by (simp add: keys_valid_alt)
  from keyed have fresh:
    "ca_id row \<notin> set (map ca_id (filter (\<lambda>r. ca_id r \<noteq> Some k) (cash_advances db)))" by simp
  have d1: "distinct (map ca_id
      (map (\<lambda>r. if ca_id r = Some k then row else r) (cash_advances db)))"
    by (rule distinct_replace[OF dist fresh])
  from assms(2) keyed d d1 show ?thesis by (auto simp: keys_valid_alt)
qed

lemma delete_cash_advances_keys_valid:
  assumes "delete_cash_advances env k db = Inr db'" and "keys_valid db"
  shows "keys_valid db'"
proof -
  from delete_cash_advances_effect[OF assms(1)] assms(2) show ?thesis
    by (auto simp: keys_valid_alt distinct_map_filter)
qed

lemma exec_stmt_keys_valid:
  assumes "exec_stmt env s db = Inr db'" and "keys_valid db"
  shows "keys_valid db'"
proof (cases s)
  case (Insert_users r)
  with assms insert_users_Inr[of r db db'] show ?thesis by (auto intro: keys_valid_frame)
next
  case (Update_users k upd)
  with assms update_users_Inr[of k upd db db'] show ?thesis by (auto intro: keys_valid_frame)
next
  case (Delete_users k)
  with assms delete_users_Inr[of k db db'] show ?thesis by (auto intro: keys_valid_frame)
next
  case (Insert_employees r)
  with assms show ?thesis by (simp add: insert_employees_keys_valid)
next
  case (Update_employees k upd)
  with assms show ?thesis by (simp add: update_employees_keys_valid)
next
  case (Delete_employees k)
  with assms show ?thesis by (simp add: delete_employees_keys_valid)
next
  case (Insert_cash_advances r)
  with assms show ?thesis by (simp add: insert_cash_advances_keys_valid)
next
  case (Update_cash_advances k upd)
  with assms show ?thesis by (simp add: update_cash_advances_keys_valid)
next
  case (Delete_cash_advances k)
  with assms show ?thesis by (simp add: delete_cash_advances_keys_valid)
next
  case (Insert_payments r)
  with assms insert_payments_Inr[of r db db'] show ?thesis by (auto intro: keys_valid_frame)
next
  case (Update_payments k upd)
  with assms update_payments_Inr[of k upd db db'] show ?thesis by (auto intro: keys_valid_frame)
next
  case (Delete_payments k)
  with assms show ?thesis by (auto simp: delete_payments_def keys_valid_def)
qed

lemma run_keys_valid: "keys_valid db \<Longrightarrow> keys_valid (run stmts db)"
proof (induction stmts arbitrary: db)
  case Nil
  then show ?case by simp
next
  case (Cons a stmts)
  obtain env s where a: "a = (env, s)" by (cases a)
  have "keys_valid (commit (exec_stmt env s db) db)"
    using Cons.prems exec_stmt_keys_valid[of env s db]
    by (cases "exec_stmt env s db") (simp_all add: commit_def)
  with Cons.IH a show ?case by simp
qed

lemma schema_init_keys_valid: "schema_init env = Inr db \<Longrightarrow> keys_valid db"
  using schema_init_value[of env] by (auto simp: keys_valid_def empty_db_def)

lemma demo_payments_run: "run demo_payments_script demo_db = demo_paid_db"
  by (simp add: demo_payments_script_def demo_paid_db_def demo_payment_def demo_db_def
      insert_payments_def coerce_payments_def payments_constraints_def
      payments_foreign_keys_def col_defs references_def commit_def demo_defs)

lemma demo_db_keys: "keys_valid demo_db"
  by (simp add: keys_valid_def demo_defs)

text \<open>
  Claim C5. In every state that statements reach from a state that satisfies the keys of
  the schema (the state the schema script leaves is one), the view has exactly one row for
  every advance; its \<open>total_paid\<close> is the sum of the amounts of the advance's payments
  (zero when it has none) and its \<open>remaining_balance\<close> is the advance's amount minus
  that sum.
\<close>

theorem summary_balance:
  assumes "keys_valid db0" and "db = run stmts db0" and "ca \<in> set (cash_advances db)"
  shows "\<exists>k row. ca_id ca = Some k \<and>
     filter (\<lambda>s. s_id s = Some k) (cash_advance_summary db) = [row] \<and>
     s_amount row = ca_amount ca \<and>
     s_total_paid row = Some (total_paid k db) \<and>
     s_remaining_balance row = map_option (\<lambda>a. a - total_paid k db) (ca_amount ca) \<and>
     (filter (\<lambda>p. p_cash_advance_id p = Some k) (payments db) = [] \<longrightarrow>
        s_total_paid row = Some 0 \<and> s_remaining_balance row = ca_amount ca)"
proof -
  from assms(1,2) have valid: "keys_valid db" by (simp add: run_keys_valid)
  from cash_advance_summary_row[OF valid assms(3)] obtain k e where
    k: "ca_id ca = Some k" and
    row: "filter (\<lambda>s. s_id s = Some k) (cash_advance_summary db) =
            [summary_row_of ca e (total_paid k db)]"
    by blast
  have "total_paid k db = 0"
    if "filter (\<lambda>p. p_cash_advance_id p = Some k) (payments db) = []"
    using that by (simp add: total_paid_def map_filter_def)
  then have zero: "filter (\<lambda>p. p_cash_advance_id p = Some k) (payments db) = [] \<longrightarrow>
      s_total_paid (summary_row_of ca e (total_paid k db)) = Some 0 \<and>
      s_remaining_balance (summary_row_of ca e (total_paid k db)) = ca_amount ca"
    by (cases "ca_amount ca") (simp_all add: summary_row_of_def)
  have fields:
    "s_amount (summary_row_of ca e (total_paid k db)) = ca_amount ca"
    "s_total_paid (summary_row_of ca e (total_paid k db)) = Some (total_paid k db)"
    "s_remaining_balance (summary_row_of ca e (total_paid k db)) =
       map_option (\<lambda>a. a - total_paid k db) (ca_amount ca)"
    by (simp_all add: summary_row_of_def)
  from k row fields zero show ?thesis by blast
qed

theorem summary_balance_witness:
  "keys_valid demo_db \<and> demo_paid_db = run demo_payments_script demo_db \<and>
   demo_advance ''PENDING'' \<in> set (cash_advances demo_paid_db) \<and>
   total_paid 20 demo_paid_db = 500 \<and>
   (\<exists>row. filter (\<lambda>s. s_id s = Some 20) (cash_advance_summary demo_paid_db) = [row] \<and>
      s_amount row = Some 1000 \<and> s_total_paid row = Some 500 \<and>
      s_remaining_balance row = Some 500)"
proof -
  have paid: "total_paid 20 demo_paid_db = 500"
    by (simp add: total_paid_def demo_paid_db_def demo_payment_def demo_defs map_filter_def)
  have id: "ca_id (demo_advance ''PENDING'') = Some 20"
    "ca_amount (demo_advance ''PENDING'') = Some 1000"
    by (simp_all add: demo_defs)
  have mem: "demo_advance ''PENDING'' \<in> set (cash_advances demo_paid_db)"
    by (simp add: demo_paid_db_def demo_defs)
  from summary_balance[OF demo_db_keys demo_payments_run[symmetric] mem] id paid mem
    demo_db_keys demo_payments_run
  show ?thesis by auto
qed

section \<open>Claim about deleting a supervisor\<close>


text \<open>An employee to whom a cash advance refers is not deleted.\<close>

lemma delete_employees_refused:
  assumes "find (\<lambda>r. e_id r = Some k) (employees db) = Some old"
    and "Some k \<in> set (map ca_employee_id (cash_advances db))"
  shows "\<exists>e. delete_employees env k db = Inl e"
proof (cases "Some k \<in> set (map e_supervisor_id (filter (\<lambda>r. e_id r \<noteq> Some k) (employees db)))")
  case True
  with assms(1) show ?thesis by (simp add: delete_employees_def)
next
  case False
  let ?db1 = "db\<lparr>employees := filter (\<lambda>r. e_id r \<noteq> Some k) (employees db)\<rparr>"
  from False have "Some k \<notin> set (map e_supervisor_id (employees ?db1))" by simp
  then have "set_null_supervisor env k ?db1 = Inr ?db1" by (rule set_null_supervisor_none)
  with assms False show ?thesis
    by (simp add: delete_employees_def and_then_def)
qed


text \<open>
  Claim C9. The schema declares the clearing, \<open>fk_supervisor ... ON DELETE SET NULL\<close>,
  but the column \<open>supervisor_id\<close> also carries the foreign key written with it,
  \<open>REFERENCES employees(id)\<close>, whose action is \<open>NO ACTION\<close> and which is checked first.
  So the delete of an employee who is the supervisor of another employee is refused with
  the violation of that key and the state stays as it was: no \<open>supervisor_id\<close> is
  cleared. A delete that succeeds is the delete of an employee without reports, and it
  changes the \<open>supervisor_id\<close> of no row.
\<close>

theorem delete_supervisor_is_refused:
  "(find (\<lambda>r. e_id r = Some k) (employees db) = Some old \<and>
    report \<in> set (employees db) \<and> e_supervisor_id report = Some k \<and> e_id report \<noteq> Some k \<longrightarrow>
      delete_employees env k db = Inl (ForeignKeyViolation ''employees_supervisor_id_fkey'') \<and>
      run [(env, Delete_employees k)] db = db) \<and>
   (delete_employees env2 k2 db2 = Inr db2' \<and>
    find (\<lambda>r. e_id r = Some k2) (employees db2) = Some old2 \<longrightarrow>
      Some k2 \<notin> set (map e_supervisor_id (filter (\<lambda>r. e_id r \<noteq> Some k2) (employees db2))) \<and>
      employees db2' = filter (\<lambda>r. e_id r \<noteq> Some k2) (employees db2))"
proof (intro conjI impI)
  assume a: "find (\<lambda>r. e_id r = Some k) (employees db) = Some old \<and>
    report \<in> set (employees db) \<and> e_supervisor_id report = Some k \<and> e_id report \<noteq> Some k"
  then have "report \<in> set (filter (\<lambda>r. e_id r \<noteq> Some k) (employees db))" by simp
  with a have "Some k \<in> set (map e_supervisor_id (filter (\<lambda>r. e_id r \<noteq> Some k) (employees db)))"
    by (metis image_eqI set_map)
  with a show r: "delete_employees env k db =
      Inl (ForeignKeyViolation ''employees_supervisor_id_fkey'')"
    by (simp add: delete_employees_def)
  then show "run [(env, Delete_employees k)] db = db" by (simp add: commit_def)
next
  assume "delete_employees env2 k2 db2 = Inr db2' \<and>
    find (\<lambda>r. e_id r = Some k2) (employees db2) = Some old2"
  then have "delete_employees env2 k2 db2 = Inr db2'"
    "find (\<lambda>r. e_id r = Some k2) (employees db2) = Some old2" by simp_all
  from delete_employees_Inr[OF this] obtain entry where
    *: "Some k2 \<notin> set (map e_supervisor_id (filter (\<lambda>r. e_id r \<noteq> Some k2) (employees db2)))"
      "db2' = db2\<lparr>employees := filter (\<lambda>r. e_id r \<noteq> Some k2) (employees db2),
                 audit_logs := audit_logs db2 @ [entry]\<rparr>"
    by blast
  from *(1) show
    "Some k2 \<notin> set (map e_supervisor_id (filter (\<lambda>r. e_id r \<noteq> Some k2) (employees db2)))" .
  from *(2) show "employees db2' = filter (\<lambda>r. e_id r \<noteq> Some k2) (employees db2)" by simp
qed

lemma staffed_value:
  "employees staffed = [demo_employee 10 None, demo_employee 11 (Some 10)]"
  "cash_advances staffed = []"
  by (simp_all add: staffed_def staff_script_def seeded_def schema_init_value administrator_def
      u_defs session_def commit_def empty_db_def demo_defs e_defs audit_defs col_defs)

theorem delete_supervisor_is_refused_witness:
  "(find (\<lambda>r. e_id r = Some 10) (employees staffed) = Some (demo_employee 10 None) \<and>
    demo_employee 11 (Some 10) \<in> set (employees staffed) \<and>
    e_supervisor_id (demo_employee 11 (Some 10)) = Some 10 \<and>
    e_id (demo_employee 11 (Some 10)) \<noteq> Some 10 \<and>
    delete_employees demo_env 11 demo_db = Inr demo_deleted_employee \<and>
    find (\<lambda>r. e_id r = Some 11) (employees demo_db) = Some (demo_employee 11 (Some 10))) \<and>
   cash_advances staffed = [] \<and>
   delete_employees (session 300) 10 staffed =
     Inl (ForeignKeyViolation ''employees_supervisor_id_fkey'') \<and>
   run [(session 300, Delete_employees 10)] staffed = staffed \<and>
   map e_supervisor_id (employees (run [(session 300, Delete_employees 10)] staffed)) =
     [None, Some 10] \<and>
   employees demo_deleted_employee = [demo_employee 10 None]"
proof -
  have f: "find (\<lambda>r. e_id r = Some 10) (employees staffed) = Some (demo_employee 10 None)"
    "demo_employee 11 (Some 10) \<in> set (employees staffed)"
    "e_supervisor_id (demo_employee 11 (Some 10)) = Some 10"
    "e_id (demo_employee 11 (Some 10)) \<noteq> Some 10"
    by (simp_all add: staffed_value) (simp_all add: demo_employee_def)
  have g: "filter (\<lambda>r. e_id r \<noteq> Some 11) (employees demo_db) = [demo_employee 10 None]"
    by (simp add: demo_defs)
  from delete_supervisor_is_refused
    [where k = 10 and db = staffed and old = "demo_employee 10 None"
       and report = "demo_employee 11 (Some 10)" and env = "session 300"
       and ?env2.0 = demo_env and ?k2.0 = 11 and ?db2.0 = demo_db
       and ?db2' = demo_deleted_employee and ?old2.0 = "demo_employee 11 (Some 10)"]
    f demo_writes(6) demo_finds(2) g staffed_value
  show ?thesis by (simp add: demo_employee_def commit_def)
qed
section \<open>The approval columns in the schema\<close>

text \<open>
  The schema puts one constraint on \<open>approved_by\<close> and \<open>approved_at\<close>, the foreign key of
  \<open>approved_by\<close>; no \<open>CHECK\<close> mentions them together or with \<open>status\<close>. Written by a
  statement of its own after the schema script and an employee, an advance with status
  APPROVED, an approval time and no approver is stored. That the two are recorded
  together is a property of the operations, shown with them below.
\<close>

lemma unapproved_advance_is_stored:
  "map ca_status (cash_advances (run unapproved_advance_script seeded)) = [Some ''APPROVED''] \<and>
   map ca_approved_by (cash_advances (run unapproved_advance_script seeded)) = [None] \<and>
   map ca_approved_at (cash_advances (run unapproved_advance_script seeded)) = [Some 7]"
  by (simp add: seeded_def schema_init_value administrator_def u_defs
      unapproved_advance_script_def unapproved_advance_def
      session_def commit_def empty_db_def demo_defs e_defs ca_defs audit_defs col_defs)

section \<open>The service operations\<close>

lemma persist_Inr [simp]: "persist m = Inr db' \<longleftrightarrow> m = Inr db'"
  by (cases m) (simp_all add: persist_def)

lemma varchar_Some_short:
  "length s \<le> n \<Longrightarrow> varchar n (Some s) = Inr v \<longleftrightarrow> v = Some s"
  by (auto simp: varchar_def)

lemma numeric_10_2_Inr: "numeric_10_2 v = Inr w \<Longrightarrow> w = map_option round_scale_2 v"
  by (cases v) (auto simp: numeric_10_2_def split: if_splits)

lemma coerce_cash_advances_fields:
  assumes "coerce_cash_advances r = Inr row"
  shows "ca_id row = ca_id r" "ca_employee_id row = ca_employee_id r"
    "ca_amount row = map_option round_scale_2 (ca_amount r)" "ca_purpose row = ca_purpose r"
    "ca_approved_by row = ca_approved_by r" "ca_approved_at row = ca_approved_at r"
    "ca_rejection_reason row = ca_rejection_reason r" "ca_payment_date row = ca_payment_date r"
    "varchar 20 (ca_status r) = Inr (ca_status row)"
  using assms
  by (auto simp: coerce_cash_advances_def and_then_Inr dest: numeric_10_2_Inr)

lemma status_text_short: "length (status_text s) \<le> 20"
  by (cases s) simp_all

lemma coerce_cash_advances_status:
  assumes "coerce_cash_advances r = Inr row" and "ca_status r = Some (status_text s)"
  shows "ca_status row = Some (status_text s)"
  using coerce_cash_advances_fields(9)[OF assms(1)] assms(2)
  by (simp add: varchar_Some_short[OF status_text_short])

lemma status_text_inj: "status_text s = status_text t \<longleftrightarrow> s = t"
  by (cases s; cases t) simp_all

text \<open>What a successful transition does: one row found, in the required status, replaced.\<close>

lemma approve_Inr:
  assumes "approve env advanceId approverId installmentPeriod monthlyDeduction db = Inr db'"
  shows "\<exists>old row entry. find (\<lambda>r. ca_id r = Some advanceId) (cash_advances db) = Some old \<and>
     ca_status old = Some (status_text PENDING) \<and>
     db' = db\<lparr>cash_advances :=
                  map (\<lambda>r. if ca_id r = Some advanceId then row else r) (cash_advances db),
                audit_logs := audit_logs db @ [entry]\<rparr> \<and>
     ca_id row = ca_id old \<and> ca_amount row = map_option round_scale_2 (ca_amount old) \<and>
     ca_status row = Some (status_text APPROVED) \<and>
     ca_approved_by row = Some approverId \<and>
     ca_approved_at row = Some (current_timestamp env)"
proof -
  from assms obtain old where
    old: "find (\<lambda>r. ca_id r = Some advanceId) (cash_advances db) = Some old"
      "ca_status old = Some (status_text PENDING)"
    and upd: "update_cash_advances env advanceId
        (\<lambda>r. r\<lparr>ca_status := Some (status_text APPROVED),
                ca_approved_by := Some approverId,
                ca_approved_at := Some (current_timestamp env),
                ca_installment_period := coalesce installmentPeriod (ca_installment_period r),
                ca_monthly_deduction := coalesce monthlyDeduction (ca_monthly_deduction r)\<rparr>)
        db = Inr db'"
    by (auto simp: approve_def split: option.splits if_splits)
  from update_cash_advances_Inr[OF upd old(1)] obtain row entry where
    row: "coerce_cash_advances
        (old\<lparr>ca_status := Some (status_text APPROVED),
              ca_approved_by := Some approverId,
              ca_approved_at := Some (current_timestamp env),
              ca_installment_period := coalesce installmentPeriod (ca_installment_period old),
              ca_monthly_deduction := coalesce monthlyDeduction (ca_monthly_deduction old)\<rparr>)
        = Inr row"
    and db': "db' = db\<lparr>cash_advances :=
                  map (\<lambda>r. if ca_id r = Some advanceId then row else r) (cash_advances db),
                audit_logs := audit_logs db @ [entry]\<rparr>"
    by blast
  from coerce_cash_advances_fields[OF row] coerce_cash_advances_status[OF row, of APPROVED]
  have "ca_id row = ca_id old" "ca_amount row = map_option round_scale_2 (ca_amount old)"
    "ca_status row = Some (status_text APPROVED)" "ca_approved_by row = Some approverId"
    "ca_approved_at row = Some (current_timestamp env)"
    by simp_all
  with old db' show ?thesis by blast
qed

lemma reject_Inr:
  assumes "reject env advanceId approverId reason db = Inr db'"
  shows "\<exists>old row entry. find (\<lambda>r. ca_id r = Some advanceId) (cash_advances db) = Some old \<and>
     ca_status old = Some (status_text PENDING) \<and>
     db' = db\<lparr>cash_advances :=
                  map (\<lambda>r. if ca_id r = Some advanceId then row else r) (cash_advances db),
                audit_logs := audit_logs db @ [entry]\<rparr> \<and>
     ca_id row = ca_id old \<and> ca_amount row = map_option round_scale_2 (ca_amount old) \<and>
     ca_status row = Some (status_text REJECTED) \<and>
     ca_rejection_reason row = Some reason \<and>
     ca_approved_by row = Some approverId \<and>
     ca_approved_at row = Some (current_timestamp env)"
proof -
  from assms obtain old where
    old: "find (\<lambda>r. ca_id r = Some advanceId) (cash_advances db) = Some old"
      "ca_status old = Some (status_text PENDING)"
    and upd: "update_cash_advances env advanceId
        (\<lambda>r. r\<lparr>ca_status := Some (status_text REJECTED),
                ca_rejection_reason := Some reason,
                ca_approved_by := Some approverId,
                ca_approved_at := Some (current_timestamp env)\<rparr>)
        db = Inr db'"
    by (auto simp: reject_def split: option.splits if_splits)
  from update_cash_advances_Inr[OF upd old(1)] obtain row entry where
    row: "coerce_cash_advances
        (old\<lparr>ca_status := Some (status_text REJECTED),
              ca_rejection_reason := Some reason,
              ca_approved_by := Some approverId,
              ca_approved_at := Some (current_timestamp env)\<rparr>)
        = Inr row"
    and db': "db' = db\<lparr>cash_advances :=
                  map (\<lambda>r. if ca_id r = Some advanceId then row else r) (cash_advances db),
                audit_logs := audit_logs db @ [entry]\<rparr>"
    by blast
  from coerce_cash_advances_fields[OF row] coerce_cash_advances_status[OF row, of REJECTED]
  have "ca_id row = ca_id old" "ca_amount row = map_option round_scale_2 (ca_amount old)"
    "ca_status row = Some (status_text REJECTED)" "ca_rejection_reason row = Some reason"
    "ca_approved_by row = Some approverId"
    "ca_approved_at row = Some (current_timestamp env)"
    by simp_all
  with old db' show ?thesis by blast
qed

lemma submit_Inr:
  assumes "submit env employeeId amount reason db = Inr db'"
  shows "\<exists>row entry. 0 < amount \<and> Some employeeId \<in> set (map e_id (employees db)) \<and>
     cash_advances_constraints row (cash_advances db) = None \<and>
     db' = db\<lparr>cash_advances := cash_advances db @ [row], audit_logs := audit_logs db @ [entry]\<rparr> \<and>
     ca_employee_id row = Some employeeId \<and> ca_amount row = Some (round_scale_2 amount) \<and>
     ca_purpose row = Some reason \<and> ca_status row = Some (status_text PENDING) \<and>
     ca_approved_by row = None \<and> ca_approved_at row = None \<and>
     ca_created_at row = Some (current_timestamp env)"
proof -
  let ?r = "(cash_advances_default env)
             \<lparr>ca_employee_id := Some employeeId,
              ca_amount := Some amount,
              ca_purpose := Some reason,
              ca_status := Some (status_text PENDING),
              ca_created_at := Some (current_timestamp env)\<rparr>"
  from assms have ok: "0 < amount" "Some employeeId \<in> set (map e_id (employees db))"
    and ins: "insert_cash_advances env ?r db = Inr db'"
    by (auto simp: submit_def split: if_splits)
  from insert_cash_advances_Inr[OF ins] obtain row entry where
    row: "coerce_cash_advances ?r = Inr row"
      "cash_advances_constraints row (cash_advances db) = None"
    and db': "db' = db\<lparr>cash_advances := cash_advances db @ [row],
                       audit_logs := audit_logs db @ [entry]\<rparr>"
    by blast
  have created: "ca_created_at row = Some (current_timestamp env)"
    using row(1) by (auto simp: coerce_cash_advances_def and_then_Inr)
  from coerce_cash_advances_fields[OF row(1)] coerce_cash_advances_status[OF row(1), of PENDING]
  have "ca_employee_id row = Some employeeId" "ca_amount row = Some (round_scale_2 amount)"
    "ca_purpose row = Some reason" "ca_status row = Some (status_text PENDING)"
    "ca_approved_by row = None" "ca_approved_at row = None"
    by (simp_all add: cash_advances_default_def)
  with ok row(2) db' created show ?thesis by blast
qed

lemma markPaid_Inr:
  assumes "markPaid env advanceId paymentDate db = Inr db'"
  shows "\<exists>old row entry. find (\<lambda>r. ca_id r = Some advanceId) (cash_advances db) = Some old \<and>
     ca_status old = Some (status_text APPROVED) \<and>
     db' = db\<lparr>cash_advances :=
                  map (\<lambda>r. if ca_id r = Some advanceId then row else r) (cash_advances db),
                audit_logs := audit_logs db @ [entry]\<rparr> \<and>
     ca_id row = ca_id old \<and> ca_amount row = map_option round_scale_2 (ca_amount old) \<and>
     ca_status row = Some (status_text PAID) \<and>
     ca_approved_by row = ca_approved_by old \<and> ca_approved_at row = ca_approved_at old \<and>
     ca_payment_date row = Some paymentDate"
proof -
  from assms obtain old where
    old: "find (\<lambda>r. ca_id r = Some advanceId) (cash_advances db) = Some old"
      "ca_status old = Some (status_text APPROVED)"
    and upd: "update_cash_advances env advanceId
        (\<lambda>r. r\<lparr>ca_status := Some (status_text PAID), ca_payment_date := Some paymentDate\<rparr>)
        db = Inr db'"
    by (auto simp: markPaid_def split: option.splits if_splits)
  from update_cash_advances_Inr[OF upd old(1)] obtain row entry where
    row: "coerce_cash_advances
        (old\<lparr>ca_status := Some (status_text PAID), ca_payment_date := Some paymentDate\<rparr>)
        = Inr row"
    and db': "db' = db\<lparr>cash_advances :=
                  map (\<lambda>r. if ca_id r = Some advanceId then row else r) (cash_advances db),
                audit_logs := audit_logs db @ [entry]\<rparr>"
    by blast
  from coerce_cash_advances_fields[OF row] coerce_cash_advances_status[OF row, of PAID]
  have "ca_id row = ca_id old" "ca_amount row = map_option round_scale_2 (ca_amount old)"
    "ca_status row = Some (status_text PAID)"
    "ca_approved_by row = ca_approved_by old" "ca_approved_at row = ca_approved_at old"
    "ca_payment_date row = Some paymentDate"
    by simp_all
  with old db' show ?thesis by blast
qed

lemma coerce_payments_fields:
  assumes "coerce_payments r = Inr row"
  shows "p_id row = p_id r" "p_cash_advance_id row = p_cash_advance_id r"
    "p_amount row = map_option round_scale_2 (p_amount r)" "p_recorded_by row = p_recorded_by r"
    "varchar 20 (p_payment_type r) = Inr (p_payment_type row)"
  using assms
  by (auto simp: coerce_payments_def and_then_Inr dest: numeric_10_2_Inr)

lemma recordPayment_Inr:
  assumes "recordPayment env advanceId amount type reference recordedBy db = Inr db'"
  shows "\<exists>ca a row. find (\<lambda>r. ca_id r = Some advanceId) (cash_advances db) = Some ca \<and>
     ca_status ca \<in> set [Some (status_text APPROVED), Some (status_text PAID)] \<and>
     0 < amount \<and> ca_amount ca = Some a \<and> total_paid advanceId db + amount \<le> a \<and>
     db' = db\<lparr>payments := payments db @ [row]\<rparr> \<and>
     p_cash_advance_id row = Some advanceId \<and> p_amount row = Some (round_scale_2 amount)"
proof -
  let ?r = "(payments_default env)
              \<lparr>p_cash_advance_id := Some advanceId,
               p_amount := Some amount,
               p_payment_type := Some (payment_type_text type),
               p_reference_number := reference,
               p_recorded_by := Some recordedBy\<rparr>"
  from assms obtain ca where
    ca: "find (\<lambda>r. ca_id r = Some advanceId) (cash_advances db) = Some ca"
    by (auto simp: recordPayment_def split: option.splits)
  with assms have st: "ca_status ca \<in> set [Some (status_text APPROVED), Some (status_text PAID)]"
    and pos: "0 < amount"
    and bal: "\<not> (case ca_amount ca of None \<Rightarrow> True
                 | Some a \<Rightarrow> a < total_paid advanceId db + amount)"
    and ins: "insert_payments ?r db = Inr db'"
    by (auto simp: recordPayment_def split: if_splits)
  from bal obtain a where a: "ca_amount ca = Some a" "total_paid advanceId db + amount \<le> a"
    by (cases "ca_amount ca") auto
  from insert_payments_Inr[OF ins] obtain row where
    row: "coerce_payments ?r = Inr row" and db': "db' = db\<lparr>payments := payments db @ [row]\<rparr>"
    by blast
  from coerce_payments_fields[OF row]
  have "p_cash_advance_id row = Some advanceId" "p_amount row = Some (round_scale_2 amount)"
    by simp_all
  with ca st pos a db' show ?thesis by blast
qed

lemma directory_stmt_ledgers:
  assumes "directory_stmt s" and "exec_stmt env s db = Inr db'"
  shows "cash_advances db' = cash_advances db \<and> payments db' = payments db"
proof (cases s)
  case (Insert_users r)
  with assms insert_users_Inr[of r db db'] show ?thesis by auto
next
  case (Update_users k upd)
  with assms update_users_Inr[of k upd db db'] show ?thesis by auto
next
  case (Delete_users k)
  with assms delete_users_Inr[of k db db'] show ?thesis by auto
next
  case (Insert_employees r)
  with assms insert_employees_Inr[of env r db db'] show ?thesis by auto
next
  case (Update_employees k upd)
  with assms update_employees_effect[of env k upd db db'] show ?thesis by auto
next
  case (Delete_employees k)
  with assms delete_employees_effect[of env k db db'] show ?thesis by auto
qed (use assms in simp_all)

lemma find_SomeD: "find P xs = Some x \<Longrightarrow> x \<in> set xs \<and> P x"
  by (auto simp: find_Some_iff)

text \<open>The four shapes a successful call can have on the two ledgers.\<close>

lemma perform_effect:
  assumes "perform env c db = Inr db'"
  shows
    "(cash_advances db' = cash_advances db \<and> payments db' = payments db)
   \<or> (\<exists>row amount. cash_advances db' = cash_advances db @ [row] \<and> payments db' = payments db \<and>
         cash_advances_constraints row (cash_advances db) = None \<and>
         ca_amount row = Some (round_scale_2 amount) \<and> 0 < amount)
   \<or> (\<exists>k old row. find (\<lambda>r. ca_id r = Some k) (cash_advances db) = Some old \<and>
         cash_advances db' = map (\<lambda>r. if ca_id r = Some k then row else r) (cash_advances db) \<and>
         payments db' = payments db \<and> ca_id row = ca_id old \<and> ca_amount row = map_option round_scale_2 (ca_amount old))
   \<or> (\<exists>k ca a amount row. find (\<lambda>r. ca_id r = Some k) (cash_advances db) = Some ca \<and>
         ca_amount ca = Some a \<and> 0 < amount \<and> total_paid k db + amount \<le> a \<and>
         cash_advances db' = cash_advances db \<and> payments db' = payments db @ [row] \<and>
         p_cash_advance_id row = Some k \<and> p_amount row = Some (round_scale_2 amount))"
proof (cases c)
  case (Administer s)
  with assms have "directory_stmt s" "exec_stmt env s db = Inr db'"
    by (auto split: if_splits)
  from directory_stmt_ledgers[OF this] show ?thesis by simp
next
  case (Submit employeeId amount reason)
  with assms have "submit env employeeId amount reason db = Inr db'" by simp
  from submit_Inr[OF this] obtain row entry where
    "0 < amount" "cash_advances_constraints row (cash_advances db) = None"
    "db' = db\<lparr>cash_advances := cash_advances db @ [row], audit_logs := audit_logs db @ [entry]\<rparr>"
    "ca_amount row = Some (round_scale_2 amount)"
    by blast
  then have "cash_advances db' = cash_advances db @ [row] \<and> payments db' = payments db \<and>
         cash_advances_constraints row (cash_advances db) = None \<and>
         ca_amount row = Some (round_scale_2 amount) \<and> 0 < amount"
    by simp
  then show ?thesis by blast
next
  case (Approve advanceId approverId installmentPeriod monthlyDeduction)
  with assms have "approve env advanceId approverId installmentPeriod monthlyDeduction db = Inr db'"
    by simp
  from approve_Inr[OF this] obtain old row entry where
    "find (\<lambda>r. ca_id r = Some advanceId) (cash_advances db) = Some old"
    "db' = db\<lparr>cash_advances :=
                  map (\<lambda>r. if ca_id r = Some advanceId then row else r) (cash_advances db),
                audit_logs := audit_logs db @ [entry]\<rparr>"
    "ca_id row = ca_id old" "ca_amount row = map_option round_scale_2 (ca_amount old)"
    by blast
  then have "find (\<lambda>r. ca_id r = Some advanceId) (cash_advances db) = Some old \<and>
         cash_advances db' = map (\<lambda>r. if ca_id r = Some advanceId then row else r) (cash_advances db) \<and>
         payments db' = payments db \<and> ca_id row = ca_id old \<and> ca_amount row = map_option round_scale_2 (ca_amount old)"
    by simp
  then show ?thesis by blast
next
  case (Reject advanceId approverId reason)
  with assms have "reject env advanceId approverId reason db = Inr db'" by simp
  from reject_Inr[OF this] obtain old row entry where
    "find (\<lambda>r. ca_id r = Some advanceId) (cash_advances db) = Some old"
    "db' = db\<lparr>cash_advances :=
                  map (\<lambda>r. if ca_id r = Some advanceId then row else r) (cash_advances db),
                audit_logs := audit_logs db @ [entry]\<rparr>"
    "ca_id row = ca_id old" "ca_amount row = map_option round_scale_2 (ca_amount old)"
    by blast
  then have "find (\<lambda>r. ca_id r = Some advanceId) (cash_advances db) = Some old \<and>
         cash_advances db' = map (\<lambda>r. if ca_id r = Some advanceId then row else r) (cash_advances db) \<and>
         payments db' = payments db \<and> ca_id row = ca_id old \<and> ca_amount row = map_option round_scale_2 (ca_amount old)"
    by simp
  then show ?thesis by blast
next
  case (MarkPaid advanceId paymentDate)
  with assms have "markPaid env advanceId paymentDate db = Inr db'" by simp
  from markPaid_Inr[OF this] obtain old row entry where
    "find (\<lambda>r. ca_id r = Some advanceId) (cash_advances db) = Some old"
    "db' = db\<lparr>cash_advances :=
                  map (\<lambda>r. if ca_id r = Some advanceId then row else r) (cash_advances db),
                audit_logs := audit_logs db @ [entry]\<rparr>"
    "ca_id row = ca_id old" "ca_amount row = map_option round_scale_2 (ca_amount old)"
    by blast
  then have "find (\<lambda>r. ca_id r = Some advanceId) (cash_advances db) = Some old \<and>
         cash_advances db' = map (\<lambda>r. if ca_id r = Some advanceId then row else r) (cash_advances db) \<and>
         payments db' = payments db \<and> ca_id row = ca_id old \<and> ca_amount row = map_option round_scale_2 (ca_amount old)"
    by simp
  then show ?thesis by blast
next
  case (RecordPayment advanceId amount type reference recordedBy)
  with assms have "recordPayment env advanceId amount type reference recordedBy db = Inr db'"
    by simp
  from recordPayment_Inr[OF this] obtain ca a row where
    "find (\<lambda>r. ca_id r = Some advanceId) (cash_advances db) = Some ca"
    "0 < amount" "ca_amount ca = Some a" "total_paid advanceId db + amount \<le> a"
    "db' = db\<lparr>payments := payments db @ [row]\<rparr>"
    "p_cash_advance_id row = Some advanceId" "p_amount row = Some (round_scale_2 amount)"
    by blast
  then have "find (\<lambda>r. ca_id r = Some advanceId) (cash_advances db) = Some ca \<and>
         ca_amount ca = Some a \<and> 0 < amount \<and> total_paid advanceId db + amount \<le> a \<and>
         cash_advances db' = cash_advances db \<and> payments db' = payments db @ [row] \<and>
         p_cash_advance_id row = Some advanceId \<and> p_amount row = Some (round_scale_2 amount)"
    by simp
  then show ?thesis by blast
qed

lemma two_decimals_round: "two_decimals (map_option round_scale_2 v)"
  by (cases v) (simp_all add: two_decimals_def)

lemma two_decimals_Some: "two_decimals (Some (round_scale_2 x))"
  by (simp add: two_decimals_def)

text \<open>Every statement and every call keeps the stored amounts at two decimals.\<close>

lemma exec_stmt_stored_scale:
  assumes "exec_stmt env s db = Inr db'" and "stored_scale db"
  shows "stored_scale db'"
  using assms(2) unfolding stored_scale_def
  by (intro conjI exec_stmt_cash_advances_all[OF assms(1)] exec_stmt_payments_all[OF assms(1)])
    (simp_all add: coerce_cash_advances_fields coerce_payments_fields two_decimals_round)

lemma run_stored_scale: "stored_scale db \<Longrightarrow> stored_scale (run stmts db)"
proof (induction stmts arbitrary: db)
  case Nil
  then show ?case by simp
next
  case (Cons a stmts)
  obtain env s where a: "a = (env, s)" by (cases a)
  have "stored_scale (commit (exec_stmt env s db) db)"
    using Cons.prems exec_stmt_stored_scale[of env s db]
    by (cases "exec_stmt env s db") (simp_all add: commit_def)
  with Cons.IH a show ?case by simp
qed

lemma schema_init_stored_scale: "schema_init env = Inr db \<Longrightarrow> stored_scale db"
  using schema_init_value[of env] by (auto simp: stored_scale_def empty_db_def)

lemma perform_stored_scale:
  assumes "perform env c db = Inr db'" and "stored_scale db"
  shows "stored_scale db'"
  using perform_effect[OF assms(1)]
proof (elim disjE exE conjE)
  assume "cash_advances db' = cash_advances db" "payments db' = payments db"
  with assms(2) show ?thesis by (simp add: stored_scale_def)
next
  fix row amount
  assume "cash_advances db' = cash_advances db @ [row]" "payments db' = payments db"
    "ca_amount row = Some (round_scale_2 amount)"
  with assms(2) show ?thesis by (simp add: stored_scale_def two_decimals_Some)
next
  fix k old row
  assume c: "cash_advances db' = map (\<lambda>r. if ca_id r = Some k then row else r) (cash_advances db)"
    and ps: "payments db' = payments db"
    and a: "ca_amount row = map_option round_scale_2 (ca_amount old)"
  from a have "two_decimals (ca_amount row)" by (simp add: two_decimals_round)
  with assms(2) c ps show ?thesis
    by (simp add: stored_scale_def list_all_replace)
next
  fix k ca a amount row
  assume "cash_advances db' = cash_advances db" "payments db' = payments db @ [row]"
    "p_amount row = Some (round_scale_2 amount)"
  with assms(2) show ?thesis by (simp add: stored_scale_def two_decimals_Some)
qed

lemma perform_nonnegative_amounts:
  assumes "perform env c db = Inr db'" and "nonnegative_amounts db"
  shows "nonnegative_amounts db'"
  using perform_effect[OF assms(1)]
proof (elim disjE exE conjE)
  assume "cash_advances db' = cash_advances db"
  with assms(2) show ?thesis by (simp add: nonnegative_amounts_def)
next
  fix row amount
  assume "cash_advances db' = cash_advances db @ [row]"
    "ca_amount row = Some (round_scale_2 amount)" "0 < amount"
  with assms(2) round_scale_2_nonneg[of amount] show ?thesis
    by (simp add: nonnegative_amounts_def)
next
  fix k old row
  assume f: "find (\<lambda>r. ca_id r = Some k) (cash_advances db) = Some old"
    and c: "cash_advances db' = map (\<lambda>r. if ca_id r = Some k then row else r) (cash_advances db)"
    and a: "ca_amount row = map_option round_scale_2 (ca_amount old)"
  from find_SomeD[OF f] assms(2) have "case ca_amount old of None \<Rightarrow> False | Some a \<Rightarrow> 0 \<le> a"
    by (simp add: nonnegative_amounts_def list_all_iff)
  with a have "case ca_amount row of None \<Rightarrow> False | Some a \<Rightarrow> 0 \<le> a"
    by (cases "ca_amount old") (simp_all add: round_scale_2_nonneg)
  with assms(2) c show ?thesis
    by (simp add: nonnegative_amounts_def list_all_replace)
next
  fix k ca a amount row
  assume "cash_advances db' = cash_advances db"
  with assms(2) show ?thesis by (simp add: nonnegative_amounts_def)
qed

lemma serve_nonnegative_amounts:
  "nonnegative_amounts db \<Longrightarrow> nonnegative_amounts (serve calls db)"
proof (induction calls arbitrary: db)
  case Nil
  then show ?case by simp
next
  case (Cons x calls)
  obtain env c where x: "x = (env, c)" by (cases x)
  have "nonnegative_amounts (commit (perform env c db) db)"
    using Cons.prems perform_nonnegative_amounts[of env c db]
    by (cases "perform env c db") (simp_all add: commit_def)
  with Cons.IH x show ?case by simp
qed

lemma total_paid_payments: "payments db' = payments db \<Longrightarrow> total_paid k db' = total_paid k db"
  by (simp add: total_paid_def)

lemma paid_within_payments:
  assumes "payments db' = payments db"
  shows "paid_within db' c = paid_within db c"
proof -
  have "total_paid k db' = total_paid k db" for k
    using assms by (rule total_paid_payments)
  then show ?thesis by (simp add: paid_within_def split: option.splits)
qed

lemma within_principal_payments:
  assumes "payments db' = payments db"
  shows "list_all (paid_within db') cs = list_all (paid_within db) cs"
  using paid_within_payments[OF assms] by (simp add: list_all_iff)

lemma total_paid_append:
  assumes "payments db' = payments db @ [p]"
  shows "total_paid k db' = total_paid k db +
     (if p_cash_advance_id p = Some k then (case p_amount p of None \<Rightarrow> 0 | Some a \<Rightarrow> a) else 0)"
  using assms by (cases "p_amount p") (simp_all add: total_paid_def map_filter_def)

lemma total_paid_unreferenced:
  assumes "Some k \<notin> set (map p_cash_advance_id (payments db))"
  shows "total_paid k db = 0"
proof -
  from assms have "filter (\<lambda>p. p_cash_advance_id p = Some k) (payments db) = []"
    by (rule filter_key_empty)
  then show ?thesis by (simp add: total_paid_def map_filter_def)
qed

lemma map_replace_same_key:
  "f row = v \<Longrightarrow> map f (map (\<lambda>r. if f r = v then row else r) xs) = map f xs"
  by (induction xs) auto

lemma sum_list_scale:
  "list_all (\<lambda>p. two_decimals (p_amount p)) ps \<Longrightarrow>
     round_scale_2 (sum_list (List.map_filter p_amount ps)) = sum_list (List.map_filter p_amount ps)"
proof (induction ps)
  case Nil
  then show ?case by (simp add: map_filter_def)
next
  case (Cons p ps)
  then have ih: "round_scale_2 (sum_list (List.map_filter p_amount ps)) =
      sum_list (List.map_filter p_amount ps)" by simp
  show ?case
  proof (cases "p_amount p")
    case None
    with ih show ?thesis by (simp add: map_filter_def)
  next
    case (Some a)
    with Cons.prems have "round_scale_2 a = a" by (simp add: two_decimals_def)
    from round_scale_2_add[OF this ih] Some show ?thesis by (simp add: map_filter_def)
  qed
qed

lemma total_paid_scale:
  assumes "stored_scale db"
  shows "round_scale_2 (total_paid k db) = total_paid k db"
proof -
  from assms have "list_all (\<lambda>p. two_decimals (p_amount p))
      (filter (\<lambda>p. p_cash_advance_id p = Some k) (payments db))"
    by (simp add: stored_scale_def list_all_filter)
  then show ?thesis unfolding total_paid_def by (rule sum_list_scale)
qed

text \<open>A payment that fits before it is rounded fits after.\<close>

lemma rounded_payment_within:
  assumes "stored_scale db" and "ca \<in> set (cash_advances db)" and "ca_amount ca = Some a"
    and "total_paid k db + amount \<le> a"
  shows "total_paid k db + round_scale_2 amount \<le> a"
proof -
  from assms(1,2,3) have "round_scale_2 a = a"
    by (auto simp: stored_scale_def list_all_iff two_decimals_def)
  from total_paid_scale[OF assms(1), of k] this assms(4) show ?thesis
    by (rule round_scale_2_within)
qed

lemma perform_ledger_consistent:
  assumes "perform env c db = Inr db'" and inv: "ledger_consistent db"
  shows "ledger_consistent db'"
proof -
  from inv have sc: "stored_scale db" by (simp add: ledger_consistent_def)
  have sc': "stored_scale db'" using assms(1) sc by (rule perform_stored_scale)
  from perform_effect[OF assms(1)] show ?thesis
  proof (elim disjE exE conjE)
    assume "cash_advances db' = cash_advances db" "payments db' = payments db"
    with inv sc' within_principal_payments[of db' db "cash_advances db"] show ?thesis
      by (simp add: ledger_consistent_def within_principal_def)
  next
    fix row amount
    assume cas: "cash_advances db' = cash_advances db @ [row]" and ps: "payments db' = payments db"
      and ok: "cash_advances_constraints row (cash_advances db) = None"
      and am: "ca_amount row = Some (round_scale_2 amount)" "0 < amount"
    from ok obtain k where k: "ca_id row = Some k" "Some k \<notin> set (map ca_id (cash_advances db))"
      by (auto simp: cash_advances_constraints_None)
    from inv have fk: "\<forall>p \<in> set (payments db). p_cash_advance_id p \<in> set (map ca_id (cash_advances db))"
      by (simp add: ledger_consistent_def list_all_iff)
    with k(2) have "Some k \<notin> set (map p_cash_advance_id (payments db))"
      by auto
    then have "total_paid k db = 0" by (rule total_paid_unreferenced)
    with k am round_scale_2_nonneg[of amount] have new: "paid_within db row"
      by (simp add: paid_within_def split: option.splits)
    from inv sc' cas ps k new paid_within_payments[OF ps] show ?thesis
      by (simp add: ledger_consistent_def within_principal_def list_all_iff)
  next
    fix k old row
    assume f: "find (\<lambda>r. ca_id r = Some k) (cash_advances db) = Some old"
      and cas: "cash_advances db' = map (\<lambda>r. if ca_id r = Some k then row else r) (cash_advances db)"
      and ps: "payments db' = payments db"
      and same: "ca_id row = ca_id old" "ca_amount row = map_option round_scale_2 (ca_amount old)"
    from find_SomeD[OF f] have old: "old \<in> set (cash_advances db)" "ca_id old = Some k" by simp_all
    from sc old(1) have "map_option round_scale_2 (ca_amount old) = ca_amount old"
      by (simp add: stored_scale_def list_all_iff two_decimals_def)
    with same(2) have amount: "ca_amount row = ca_amount old" by simp
    from old same(1) have ids: "map ca_id (cash_advances db') = map ca_id (cash_advances db)"
      unfolding cas by (simp add: map_replace_same_key)
    from inv old have "paid_within db old"
      by (simp add: ledger_consistent_def within_principal_def list_all_iff)
    with same(1) amount have "paid_within db row" by (simp add: paid_within_def split: option.splits)
    with inv have "list_all (paid_within db) (cash_advances db')"
      unfolding cas by (simp add: ledger_consistent_def within_principal_def list_all_replace)
    with inv sc' ids ps within_principal_payments[OF ps, of "cash_advances db'"] show ?thesis
      by (simp add: ledger_consistent_def within_principal_def)
  next
    fix k ca a amount row
    assume f: "find (\<lambda>r. ca_id r = Some k) (cash_advances db) = Some ca"
      and a: "ca_amount ca = Some a" "0 < amount" "total_paid k db + amount \<le> a"
      and cas: "cash_advances db' = cash_advances db"
      and ps: "payments db' = payments db @ [row]"
      and row: "p_cash_advance_id row = Some k" "p_amount row = Some (round_scale_2 amount)"
    from find_SomeD[OF f] have ca: "ca \<in> set (cash_advances db)" "ca_id ca = Some k" by simp_all
    from inv have d: "distinct (map ca_id (cash_advances db))"
      by (simp add: ledger_consistent_def)
    have fits: "total_paid k db + round_scale_2 amount \<le> a"
      using sc ca(1) a(1,3) by (rule rounded_payment_within)
    have "paid_within db' c" if c: "c \<in> set (cash_advances db)" for c
    proof -
      from inv c have pw: "paid_within db c"
        by (simp add: ledger_consistent_def within_principal_def list_all_iff)
      then obtain k' a' where c': "ca_id c = Some k'" "ca_amount c = Some a'" "total_paid k' db \<le> a'"
        by (auto simp: paid_within_def split: option.splits)
      show ?thesis
      proof (cases "k' = k")
        case True
        with c' ca have "ca_id c = ca_id ca" by simp
        with d c ca(1) have "c = ca" by (rule distinct_key_eq)
        with a fits c' True total_paid_append[OF ps, of k] row show ?thesis
          by (simp add: paid_within_def split: option.splits)
      next
        case False
        with c' total_paid_append[OF ps, of k'] row show ?thesis
          by (simp add: paid_within_def split: option.splits)
      qed
    qed
    then have wp: "within_principal db'"
      by (simp add: within_principal_def cas list_all_iff)
    from ca have "Some k \<in> set (map ca_id (cash_advances db))" by force
    with inv sc' cas ps row wp show ?thesis
      by (simp add: ledger_consistent_def)
  qed
qed

lemma serve_ledger_consistent: "ledger_consistent db \<Longrightarrow> ledger_consistent (serve calls db)"
proof (induction calls arbitrary: db)
  case Nil
  then show ?case by simp
next
  case (Cons x calls)
  obtain env c where x: "x = (env, c)" by (cases x)
  have "ledger_consistent (commit (perform env c db) db)"
    using Cons.prems perform_ledger_consistent[of env c db]
    by (cases "perform env c db") (simp_all add: commit_def)
  with Cons.IH x show ?case by simp
qed

text \<open>Every call keeps the record of the approvals.\<close>

lemma approval_recorded_pending:
  assumes "ca_status row = Some (status_text PENDING)"
    and "ca_approved_by row = None" and "ca_approved_at row = None"
  shows "approval_recorded row"
  using assms by (simp add: approval_recorded_def)

lemma approval_recorded_set:
  assumes "ca_status row = Some (status_text s)" and "s \<noteq> PENDING"
    and "ca_approved_by row = Some b" and "ca_approved_at row = Some t"
  shows "approval_recorded row"
  using assms by (cases s) (simp_all add: approval_recorded_def)

lemma approval_recorded_approved:
  assumes "approval_recorded old" and "ca_status old = Some (status_text APPROVED)"
  shows "\<exists>b t. ca_approved_by old = Some b \<and> ca_approved_at old = Some t"
  using assms by (auto simp: approval_recorded_def)

lemma perform_approval_recorded:
  assumes "perform env c db = Inr db'" and inv: "list_all approval_recorded (cash_advances db)"
  shows "list_all approval_recorded (cash_advances db')"
proof (cases c)
  case (Administer s)
  with assms have "directory_stmt s" "exec_stmt env s db = Inr db'"
    by (auto split: if_splits)
  from directory_stmt_ledgers[OF this] inv show ?thesis by simp
next
  case (Submit employeeId amount reason)
  with assms have "submit env employeeId amount reason db = Inr db'" by simp
  from submit_Inr[OF this] obtain row entry where
    db': "db' = db\<lparr>cash_advances := cash_advances db @ [row],
                      audit_logs := audit_logs db @ [entry]\<rparr>"
    and row: "ca_status row = Some (status_text PENDING)"
      "ca_approved_by row = None" "ca_approved_at row = None"
    by blast
  from row have "approval_recorded row" by (rule approval_recorded_pending)
  with inv db' show ?thesis by simp
next
  case (Approve advanceId approverId installmentPeriod monthlyDeduction)
  with assms have "approve env advanceId approverId installmentPeriod monthlyDeduction db = Inr db'"
    by simp
  from approve_Inr[OF this] obtain old row entry where
    db': "db' = db\<lparr>cash_advances :=
                  map (\<lambda>r. if ca_id r = Some advanceId then row else r) (cash_advances db),
                audit_logs := audit_logs db @ [entry]\<rparr>"
    and row: "ca_status row = Some (status_text APPROVED)"
      "ca_approved_by row = Some approverId"
      "ca_approved_at row = Some (current_timestamp env)"
    by blast
  have "approval_recorded row" by (rule approval_recorded_set[OF row(1) _ row(2,3)]) simp
  with inv db' show ?thesis by (simp add: list_all_replace)
next
  case (Reject advanceId approverId reason)
  with assms have "reject env advanceId approverId reason db = Inr db'" by simp
  from reject_Inr[OF this] obtain old row entry where
    db': "db' = db\<lparr>cash_advances :=
                  map (\<lambda>r. if ca_id r = Some advanceId then row else r) (cash_advances db),
                audit_logs := audit_logs db @ [entry]\<rparr>"
    and row: "ca_status row = Some (status_text REJECTED)"
      "ca_approved_by row = Some approverId"
      "ca_approved_at row = Some (current_timestamp env)"
    by blast
  have "approval_recorded row" by (rule approval_recorded_set[OF row(1) _ row(2,3)]) simp
  with inv db' show ?thesis by (simp add: list_all_replace)
next
  case (MarkPaid advanceId paymentDate)
  with assms have "markPaid env advanceId paymentDate db = Inr db'" by simp
  from markPaid_Inr[OF this] obtain old row entry where
    f: "find (\<lambda>r. ca_id r = Some advanceId) (cash_advances db) = Some old"
    and st: "ca_status old = Some (status_text APPROVED)"
    and db': "db' = db\<lparr>cash_advances :=
                  map (\<lambda>r. if ca_id r = Some advanceId then row else r) (cash_advances db),
                audit_logs := audit_logs db @ [entry]\<rparr>"
    and row: "ca_status row = Some (status_text PAID)"
      "ca_approved_by row = ca_approved_by old" "ca_approved_at row = ca_approved_at old"
    by blast
  from find_SomeD[OF f] inv have "approval_recorded old" by (simp add: list_all_iff)
  from approval_recorded_approved[OF this st] obtain b t where
    "ca_approved_by old = Some b" "ca_approved_at old = Some t" by blast
  with row have rb: "ca_approved_by row = Some b" and rt: "ca_approved_at row = Some t"
    by simp_all
  have "approval_recorded row" by (rule approval_recorded_set[OF row(1) _ rb rt]) simp
  with inv db' show ?thesis by (simp add: list_all_replace)
next
  case (RecordPayment advanceId amount type reference recordedBy)
  with assms have "recordPayment env advanceId amount type reference recordedBy db = Inr db'"
    by simp
  from recordPayment_Inr[OF this] inv show ?thesis by auto
qed

lemma serve_approval_recorded:
  "list_all approval_recorded (cash_advances db) \<Longrightarrow>
     list_all approval_recorded (cash_advances (serve calls db))"
proof (induction calls arbitrary: db)
  case Nil
  then show ?case by simp
next
  case (Cons x calls)
  obtain env c where x: "x = (env, c)" by (cases x)
  have "list_all approval_recorded (cash_advances (commit (perform env c db) db))"
    using Cons.prems perform_approval_recorded[of env c db]
    by (cases "perform env c db") (simp_all add: commit_def)
  with Cons.IH x show ?case by simp
qed

lemmas service_defs = submit_def approve_def reject_def markPaid_def recordPayment_def
  persist_def total_paid_def map_filter_def

lemmas eval_defs = seeded_def schema_init_value administrator_def u_defs session_def
  commit_def empty_db_def demo_defs e_defs ca_defs p_defs audit_defs col_defs service_defs

lemma scenario_statuses:
  "map ca_id (cash_advances submitted) = [Some 300]"
  "map ca_status (cash_advances submitted) = [Some ''PENDING'']"
  "map ca_status (cash_advances approved) = [Some ''APPROVED'']"
  "map ca_status (cash_advances settled) = [Some ''PAID'']"
  "map p_amount (payments settled) = [Some 200, Some 200, Some 200, Some 200, Some 200]"
  by (simp_all add: submitted_def approved_def settled_def scenario_def eval_defs)

lemma scenario_steps:
  "schema_init (session 100) = Inr seeded"
  "submit (session 300) 10 1000 ''medical'' hired = Inr submitted"
  "approve (session 400) 300 100 (Some 5) (Some 200) submitted = Inr approved"
  "reject (session 400) 300 100 ''insufficient justification'' submitted =
     Inr (commit (reject (session 400) 300 100 ''insufficient justification'' submitted) empty_db)"
  "recordPayment (session 500) 300 200 SALARY_DEDUCTION None 100 approved =
     Inr (commit (recordPayment (session 500) 300 200 SALARY_DEDUCTION None 100 approved) empty_db)"
  "find (\<lambda>r. ca_id r = Some 300) (cash_advances approved) = Some (hd (cash_advances approved))"
  "ca_status (hd (cash_advances approved)) = Some (status_text APPROVED)"
  "find (\<lambda>r. ca_id r = Some 300) (cash_advances settled) = Some (hd (cash_advances settled))"
  "ca_status (hd (cash_advances settled)) = Some (status_text PAID)"
  "ca_amount (hd (cash_advances settled)) = Some 1000"
  "total_paid 300 settled = 1000"
  "markPaid (session 600) 300 7 repaid = Inr settled"
  by (simp_all add: hired_def submitted_def approved_def repaid_def settled_def scenario_def
      eval_defs)

lemma scenario_approvals:
  "map ca_approved_by (cash_advances submitted) = [None]"
  "map ca_approved_at (cash_advances submitted) = [None]"
  "map ca_approved_by (cash_advances approved) = [Some 100]"
  "map ca_approved_at (cash_advances approved) = [Some 400]"
  "map ca_approved_by (cash_advances settled) = [Some 100]"
  "map ca_approved_at (cash_advances settled) = [Some 400]"
  by (simp_all add: submitted_def approved_def settled_def scenario_def eval_defs)

lemma scenario_scale: "stored_scale approved"
  by (simp add: stored_scale_def two_decimals_def approved_def scenario_def eval_defs)

lemma small_amount_steps:
  "submit (session 300) 10 (1 / 256) ''medical'' hired = Inr small_amount_stored"
  "map ca_amount (cash_advances small_amount_stored) = [Some 0]"
  "map ca_status (cash_advances small_amount_stored) = [Some ''PENDING'']"
  by (simp_all add: small_amount_stored_def small_amount_calls_def hired_def scenario_def
      eval_defs round_scale_2_small)

text \<open>
  Claim C1 (against the operations as the specification describes them). For an advance
  whose status is APPROVED, REJECTED or PAID, \<open>approve\<close> and \<open>reject\<close> fail with
  \<open>InvalidStateError\<close> and the state stays as it was. When \<open>approve\<close> or \<open>reject\<close>
  succeeds, the advance was PENDING, and it then is APPROVED (or REJECTED, with the
  reason) with the approver and the time recorded.
\<close>

theorem approve_reject_only_from_pending:
  "(find (\<lambda>r. ca_id r = Some advanceId) (cash_advances db) = Some ca \<and>
    ca_status ca = Some (status_text s) \<and> s \<in> set [APPROVED, REJECTED, PAID] \<longrightarrow>
      approve env advanceId approverId installmentPeriod monthlyDeduction db =
        Inl InvalidStateError \<and>
      reject env advanceId approverId reason db = Inl InvalidStateError \<and>
      commit (approve env advanceId approverId installmentPeriod monthlyDeduction db) db = db \<and>
      commit (reject env advanceId approverId reason db) db = db) \<and>
   (approve env2 advanceId2 approverId2 installmentPeriod2 monthlyDeduction2 db2 = Inr db2' \<longrightarrow>
      (\<exists>old row.
         find (\<lambda>r. ca_id r = Some advanceId2) (cash_advances db2) = Some old \<and>
         ca_status old = Some (status_text PENDING) \<and>
         cash_advances db2' =
           map (\<lambda>r. if ca_id r = Some advanceId2 then row else r) (cash_advances db2) \<and>
         ca_status row = Some (status_text APPROVED) \<and>
         ca_approved_by row = Some approverId2 \<and>
         ca_approved_at row = Some (current_timestamp env2))) \<and>
   (reject env3 advanceId3 approverId3 reason3 db3 = Inr db3' \<longrightarrow>
      (\<exists>old row.
         find (\<lambda>r. ca_id r = Some advanceId3) (cash_advances db3) = Some old \<and>
         ca_status old = Some (status_text PENDING) \<and>
         cash_advances db3' =
           map (\<lambda>r. if ca_id r = Some advanceId3 then row else r) (cash_advances db3) \<and>
         ca_status row = Some (status_text REJECTED) \<and>
         ca_rejection_reason row = Some reason3 \<and>
         ca_approved_by row = Some approverId3 \<and>
         ca_approved_at row = Some (current_timestamp env3)))"
proof (intro conjI impI)
  assume a: "find (\<lambda>r. ca_id r = Some advanceId) (cash_advances db) = Some ca \<and>
    ca_status ca = Some (status_text s) \<and> s \<in> set [APPROVED, REJECTED, PAID]"
  then have "s \<noteq> PENDING" by auto
  then have ne: "status_text s \<noteq> status_text PENDING"
    by (simp only: status_text_inj not_False_eq_True)
  with a show ap: "approve env advanceId approverId installmentPeriod monthlyDeduction db =
      Inl InvalidStateError"
    by (simp add: approve_def)
  from a ne show re: "reject env advanceId approverId reason db = Inl InvalidStateError"
    by (simp add: reject_def)
  from ap show "commit (approve env advanceId approverId installmentPeriod monthlyDeduction db) db = db"
    by (simp add: commit_def)
  from re show "commit (reject env advanceId approverId reason db) db = db"
    by (simp add: commit_def)
next
  assume "approve env2 advanceId2 approverId2 installmentPeriod2 monthlyDeduction2 db2 = Inr db2'"
  from approve_Inr[OF this] show "\<exists>old row.
         find (\<lambda>r. ca_id r = Some advanceId2) (cash_advances db2) = Some old \<and>
         ca_status old = Some (status_text PENDING) \<and>
         cash_advances db2' =
           map (\<lambda>r. if ca_id r = Some advanceId2 then row else r) (cash_advances db2) \<and>
         ca_status row = Some (status_text APPROVED) \<and>
         ca_approved_by row = Some approverId2 \<and>
         ca_approved_at row = Some (current_timestamp env2)"
    by auto
next
  assume "reject env3 advanceId3 approverId3 reason3 db3 = Inr db3'"
  from reject_Inr[OF this] show "\<exists>old row.
         find (\<lambda>r. ca_id r = Some advanceId3) (cash_advances db3) = Some old \<and>
         ca_status old = Some (status_text PENDING) \<and>
         cash_advances db3' =
           map (\<lambda>r. if ca_id r = Some advanceId3 then row else r) (cash_advances db3) \<and>
         ca_status row = Some (status_text REJECTED) \<and>
         ca_rejection_reason row = Some reason3 \<and>
         ca_approved_by row = Some approverId3 \<and>
         ca_approved_at row = Some (current_timestamp env3)"
    by auto
qed

theorem approve_reject_only_from_pending_witness:
  "(find (\<lambda>r. ca_id r = Some 300) (cash_advances approved) = Some (hd (cash_advances approved)) \<and>
    ca_status (hd (cash_advances approved)) = Some (status_text APPROVED) \<and>
    approve (session 400) 300 100 (Some 5) (Some 200) submitted = Inr approved \<and>
    reject (session 400) 300 100 ''insufficient justification'' submitted =
      Inr (commit (reject (session 400) 300 100 ''insufficient justification'' submitted)
             empty_db)) \<and>
   approve (session 700) 300 100 None None approved = Inl InvalidStateError \<and>
   reject (session 700) 300 100 ''late'' approved = Inl InvalidStateError \<and>
   commit (approve (session 700) 300 100 None None approved) approved = approved \<and>
   commit (reject (session 700) 300 100 ''late'' approved) approved = approved \<and>
   map ca_status (cash_advances submitted) = [Some ''PENDING''] \<and>
   map ca_status (cash_advances approved) = [Some ''APPROVED'']"
proof -
  have "APPROVED \<in> set [APPROVED, REJECTED, PAID]" by simp
  with approve_reject_only_from_pending
    [where advanceId = 300 and db = approved and ca = "hd (cash_advances approved)"
       and s = APPROVED and env = "session 700" and approverId = 100
       and installmentPeriod = None and monthlyDeduction = None and reason = "''late''"
       and ?env2.0 = "session 400" and ?advanceId2.0 = 300 and ?approverId2.0 = 100
       and ?installmentPeriod2.0 = "Some 5" and ?monthlyDeduction2.0 = "Some 200"
       and ?db2.0 = submitted and ?db2' = approved
       and ?env3.0 = "session 400" and ?advanceId3.0 = 300 and ?approverId3.0 = 100
       and ?reason3.0 = "''insufficient justification''" and ?db3.0 = submitted
       and ?db3' = "commit (reject (session 400) 300 100 ''insufficient justification'' submitted)
             empty_db"]
    scenario_steps(3,4,6,7) scenario_statuses(2,3)
  show ?thesis by (simp add: commit_def)
qed

text \<open>
  Claim C7 (against the operations as the specification describes them). In every state
  of a system that starts from the schema script and is used through the operations, an
  advance that is APPROVED, REJECTED or PAID has both \<open>approved_by\<close> and \<open>approved_at\<close>,
  neither is present without the other, and a PENDING advance has neither. The two are
  set together by the transition out of PENDING: a successful \<open>approve\<close> or \<open>reject\<close>
  writes the approver and the time in one update, and \<open>markPaid\<close> keeps both. The schema
  alone does not give this (\<open>unapproved_advance_is_stored\<close>).
\<close>

theorem approval_is_recorded_together:
  "(schema_init env = Inr db0 \<longrightarrow> list_all approval_recorded (cash_advances (serve calls db0))) \<and>
   (approve env2 advanceId2 approverId2 installmentPeriod2 monthlyDeduction2 db2 = Inr db2' \<longrightarrow>
      (\<exists>old row.
         find (\<lambda>r. ca_id r = Some advanceId2) (cash_advances db2) = Some old \<and>
         ca_status old = Some (status_text PENDING) \<and>
         cash_advances db2' =
           map (\<lambda>r. if ca_id r = Some advanceId2 then row else r) (cash_advances db2) \<and>
         ca_approved_by row = Some approverId2 \<and>
         ca_approved_at row = Some (current_timestamp env2))) \<and>
   (reject env3 advanceId3 approverId3 reason3 db3 = Inr db3' \<longrightarrow>
      (\<exists>old row.
         find (\<lambda>r. ca_id r = Some advanceId3) (cash_advances db3) = Some old \<and>
         ca_status old = Some (status_text PENDING) \<and>
         cash_advances db3' =
           map (\<lambda>r. if ca_id r = Some advanceId3 then row else r) (cash_advances db3) \<and>
         ca_approved_by row = Some approverId3 \<and>
         ca_approved_at row = Some (current_timestamp env3))) \<and>
   (markPaid env4 advanceId4 paymentDate4 db4 = Inr db4' \<longrightarrow>
      (\<exists>old row.
         find (\<lambda>r. ca_id r = Some advanceId4) (cash_advances db4) = Some old \<and>
         ca_status old = Some (status_text APPROVED) \<and>
         cash_advances db4' =
           map (\<lambda>r. if ca_id r = Some advanceId4 then row else r) (cash_advances db4) \<and>
         ca_approved_by row = ca_approved_by old \<and>
         ca_approved_at row = ca_approved_at old))"
proof (intro conjI impI)
  assume "schema_init env = Inr db0"
  then have "list_all approval_recorded (cash_advances db0)"
    by (auto simp: schema_init_value empty_db_def)
  then show "list_all approval_recorded (cash_advances (serve calls db0))"
    by (rule serve_approval_recorded)
next
  assume "approve env2 advanceId2 approverId2 installmentPeriod2 monthlyDeduction2 db2 = Inr db2'"
  from approve_Inr[OF this] show "\<exists>old row.
         find (\<lambda>r. ca_id r = Some advanceId2) (cash_advances db2) = Some old \<and>
         ca_status old = Some (status_text PENDING) \<and>
         cash_advances db2' =
           map (\<lambda>r. if ca_id r = Some advanceId2 then row else r) (cash_advances db2) \<and>
         ca_approved_by row = Some approverId2 \<and>
         ca_approved_at row = Some (current_timestamp env2)"
    by auto
next
  assume "reject env3 advanceId3 approverId3 reason3 db3 = Inr db3'"
  from reject_Inr[OF this] show "\<exists>old row.
         find (\<lambda>r. ca_id r = Some advanceId3) (cash_advances db3) = Some old \<and>
         ca_status old = Some (status_text PENDING) \<and>
         cash_advances db3' =
           map (\<lambda>r. if ca_id r = Some advanceId3 then row else r) (cash_advances db3) \<and>
         ca_approved_by row = Some approverId3 \<and>
         ca_approved_at row = Some (current_timestamp env3)"
    by auto
next
  assume "markPaid env4 advanceId4 paymentDate4 db4 = Inr db4'"
  from markPaid_Inr[OF this] show "\<exists>old row.
         find (\<lambda>r. ca_id r = Some advanceId4) (cash_advances db4) = Some old \<and>
         ca_status old = Some (status_text APPROVED) \<and>
         cash_advances db4' =
           map (\<lambda>r. if ca_id r = Some advanceId4 then row else r) (cash_advances db4) \<and>
         ca_approved_by row = ca_approved_by old \<and>
         ca_approved_at row = ca_approved_at old"
    by auto
qed

theorem approval_is_recorded_together_witness:
  "(schema_init (session 100) = Inr seeded \<and>
    approve (session 400) 300 100 (Some 5) (Some 200) submitted = Inr approved \<and>
    reject (session 400) 300 100 ''insufficient justification'' submitted =
      Inr (commit (reject (session 400) 300 100 ''insufficient justification'' submitted)
             empty_db) \<and>
    markPaid (session 600) 300 7 repaid = Inr settled) \<and>
   list_all approval_recorded (cash_advances (serve scenario seeded)) \<and>
   map ca_status (cash_advances submitted) = [Some ''PENDING''] \<and>
   map ca_approved_by (cash_advances submitted) = [None] \<and>
   map ca_approved_at (cash_advances submitted) = [None] \<and>
   map ca_status (cash_advances approved) = [Some ''APPROVED''] \<and>
   map ca_approved_by (cash_advances approved) = [Some 100] \<and>
   map ca_approved_at (cash_advances approved) = [Some 400] \<and>
   map ca_status (cash_advances settled) = [Some ''PAID''] \<and>
   map ca_approved_by (cash_advances settled) = [Some 100] \<and>
   map ca_approved_at (cash_advances settled) = [Some 400]"
  using approval_is_recorded_together
    [where env = "session 100" and ?db0.0 = seeded and calls = scenario
       and ?env2.0 = "session 400" and ?advanceId2.0 = 300 and ?approverId2.0 = 100
       and ?installmentPeriod2.0 = "Some 5" and ?monthlyDeduction2.0 = "Some 200"
       and ?db2.0 = submitted and ?db2' = approved
       and ?env3.0 = "session 400" and ?advanceId3.0 = 300 and ?approverId3.0 = 100
       and ?reason3.0 = "''insufficient justification''" and ?db3.0 = submitted
       and ?db3' = "commit (reject (session 400) 300 100 ''insufficient justification'' submitted)
             empty_db"
       and ?env4.0 = "session 600" and ?advanceId4.0 = 300 and ?paymentDate4.0 = 7
       and ?db4.0 = repaid and ?db4' = settled]
    scenario_steps(1,3,4,12) scenario_statuses(2,3,4) scenario_approvals
  by simp

text \<open>
  Claim C6, as stated (against the operations as the specification describes them):
  \<open>submit\<close> refuses an amount that is zero or negative, hence every stored advance has
  a strictly positive amount. The column \<open>amount\<close> is \<open>NUMERIC(10,2)\<close>, which rounds what
  it stores to two decimals. After the schema script and an employee, \<open>submit\<close> with the
  amount 1/256, which is positive, succeeds, and the advance is stored with the amount
  0.00.
\<close>

theorem submit_stores_zero_amount:
  "schema_init (session 100) = Inr seeded \<and>
   (0 :: numeric) < 1 / 256 \<and>
   submit (session 300) 10 (1 / 256) ''medical'' hired = Inr small_amount_stored \<and>
   map ca_amount (cash_advances small_amount_stored) = [Some 0] \<and>
   \<not> positive_amounts small_amount_stored"
proof -
  from small_amount_steps(2) have "\<not> positive_amounts small_amount_stored"
    by (cases "cash_advances small_amount_stored") (auto simp: positive_amounts_def)
  with scenario_steps(1) small_amount_steps(1,2) show ?thesis by simp
qed

text \<open>
  Claim C6, amended. \<open>submit\<close> with an amount that is zero or negative fails with
  \<open>ValidationError\<close> and the state stays as it was; a successful \<open>submit\<close> adds one
  PENDING advance whose amount is the given, positive amount rounded to two decimals,
  which is not negative, and is at least 0.01 when the given amount is at least 0.005.
  Hence every advance stored by a system that starts from the schema script and is used
  through the operations has an amount that is not negative.
\<close>

theorem submit_stores_rounded_amount:
  "(amount \<le> 0 \<longrightarrow>
      submit env employeeId amount reason db = Inl ValidationError \<and>
      commit (submit env employeeId amount reason db) db = db) \<and>
   (submit env2 employeeId2 amount2 reason2 db2 = Inr db2' \<longrightarrow>
      (\<exists>row. cash_advances db2' = cash_advances db2 @ [row] \<and>
         ca_employee_id row = Some employeeId2 \<and>
         0 < amount2 \<and> ca_amount row = Some (round_scale_2 amount2) \<and>
         0 \<le> round_scale_2 amount2 \<and>
         (1 / 200 \<le> amount2 \<longrightarrow> 1 / 100 \<le> round_scale_2 amount2) \<and>
         ca_status row = Some (status_text PENDING) \<and>
         ca_created_at row = Some (current_timestamp env2))) \<and>
   (schema_init env3 = Inr db3 \<longrightarrow> nonnegative_amounts (serve calls db3))"
proof (intro conjI impI)
  assume "amount \<le> 0"
  then show s: "submit env employeeId amount reason db = Inl ValidationError"
    by (simp add: submit_def)
  then show "commit (submit env employeeId amount reason db) db = db"
    by (simp add: commit_def)
next
  assume "submit env2 employeeId2 amount2 reason2 db2 = Inr db2'"
  from submit_Inr[OF this] obtain row where
    row: "cash_advances db2' = cash_advances db2 @ [row]"
      "ca_employee_id row = Some employeeId2" "0 < amount2"
      "ca_amount row = Some (round_scale_2 amount2)"
      "ca_status row = Some (status_text PENDING)"
      "ca_created_at row = Some (current_timestamp env2)"
    by auto
  from row(3) have "0 \<le> round_scale_2 amount2" by (simp add: round_scale_2_nonneg)
  with row round_scale_2_positive[of amount2] show "\<exists>row. cash_advances db2' = cash_advances db2 @ [row] \<and>
         ca_employee_id row = Some employeeId2 \<and>
         0 < amount2 \<and> ca_amount row = Some (round_scale_2 amount2) \<and>
         0 \<le> round_scale_2 amount2 \<and>
         (1 / 200 \<le> amount2 \<longrightarrow> 1 / 100 \<le> round_scale_2 amount2) \<and>
         ca_status row = Some (status_text PENDING) \<and>
         ca_created_at row = Some (current_timestamp env2)"
    by blast
next
  assume "schema_init env3 = Inr db3"
  then have "nonnegative_amounts db3"
    by (auto simp: schema_init_value nonnegative_amounts_def empty_db_def)
  then show "nonnegative_amounts (serve calls db3)" by (rule serve_nonnegative_amounts)
qed

theorem submit_stores_rounded_amount_witness:
  "((- 5 :: numeric) \<le> 0 \<and> submit (session 300) 10 1000 ''medical'' hired = Inr submitted \<and>
    (1 / 200 :: numeric) \<le> 1000 \<and> schema_init (session 100) = Inr seeded) \<and>
   submit (session 300) 10 (- 5) ''medical'' hired = Inl ValidationError \<and>
   commit (submit (session 300) 10 (- 5) ''medical'' hired) hired = hired \<and>
   map ca_id (cash_advances submitted) = [Some 300] \<and>
   map ca_status (cash_advances submitted) = [Some ''PENDING''] \<and>
   round_scale_2 1000 = 1000 \<and>
   nonnegative_amounts (serve scenario seeded)"
  using submit_stores_rounded_amount
    [where amount = "- 5" and env = "session 300" and employeeId = 10 and reason = "''medical''"
       and db = hired
       and ?env2.0 = "session 300" and ?employeeId2.0 = 10 and ?amount2.0 = 1000
       and ?reason2.0 = "''medical''" and ?db2.0 = hired and ?db2' = submitted
       and ?env3.0 = "session 100" and ?db3.0 = seeded and calls = scenario]
    scenario_steps(1,2) scenario_statuses(1,2)
  by (simp add: commit_def)

text \<open>
  Claim C2 (against the operations as the specification describes them). A payment that
  would bring the sum of an advance's payments above its amount is refused by
  \<open>recordPayment\<close> with \<open>BalanceError\<close> and no payment row is added; a payment that is
  recorded is stored rounded to two decimals and leaves the sum at most the amount, the
  stored amounts having two decimals, as they have in every state that statements or
  calls reach (\<open>run_stored_scale\<close>, \<open>perform_stored_scale\<close>). Hence in every state of a
  system that starts from the schema script and is used through the operations, the
  payments of every advance sum to at most its amount. The schema alone does not give
  this: \<open>insert_payments\<close> compares no sums.
\<close>

theorem payments_never_exceed_principal:
  "(find (\<lambda>r. ca_id r = Some advanceId) (cash_advances db) = Some ca \<and>
    ca_status ca \<in> set [Some (status_text APPROVED), Some (status_text PAID)] \<and>
    0 < amount \<and> ca_amount ca = Some a \<and> a < total_paid advanceId db + amount \<longrightarrow>
      recordPayment env advanceId amount type reference recordedBy db = Inl BalanceError \<and>
      payments (commit (recordPayment env advanceId amount type reference recordedBy db) db) =
        payments db) \<and>
   (recordPayment env2 advanceId2 amount2 type2 reference2 recordedBy2 db2 = Inr db2' \<longrightarrow>
      (\<exists>ca a row. find (\<lambda>r. ca_id r = Some advanceId2) (cash_advances db2) = Some ca \<and>
         ca_amount ca = Some a \<and> total_paid advanceId2 db2 + amount2 \<le> a \<and>
         payments db2' = payments db2 @ [row] \<and>
         p_cash_advance_id row = Some advanceId2 \<and>
         p_amount row = Some (round_scale_2 amount2) \<and>
         total_paid advanceId2 db2' = total_paid advanceId2 db2 + round_scale_2 amount2 \<and>
         (stored_scale db2 \<longrightarrow> total_paid advanceId2 db2' \<le> a))) \<and>
   (schema_init env3 = Inr db3 \<longrightarrow> within_principal (serve calls db3))"
proof (intro conjI impI)
  assume a: "find (\<lambda>r. ca_id r = Some advanceId) (cash_advances db) = Some ca \<and>
    ca_status ca \<in> set [Some (status_text APPROVED), Some (status_text PAID)] \<and>
    0 < amount \<and> ca_amount ca = Some a \<and> a < total_paid advanceId db + amount"
  then show r: "recordPayment env advanceId amount type reference recordedBy db = Inl BalanceError"
    by (simp add: recordPayment_def)
  then show "payments (commit (recordPayment env advanceId amount type reference recordedBy db) db) =
      payments db"
    by (simp add: commit_def)
next
  assume "recordPayment env2 advanceId2 amount2 type2 reference2 recordedBy2 db2 = Inr db2'"
  from recordPayment_Inr[OF this] obtain ca a row where
    f: "find (\<lambda>r. ca_id r = Some advanceId2) (cash_advances db2) = Some ca"
    and a: "ca_amount ca = Some a" "total_paid advanceId2 db2 + amount2 \<le> a"
    and ps: "db2' = db2\<lparr>payments := payments db2 @ [row]\<rparr>"
    and row: "p_cash_advance_id row = Some advanceId2"
      "p_amount row = Some (round_scale_2 amount2)"
    by blast
  from ps have ps': "payments db2' = payments db2 @ [row]" by simp
  from total_paid_append[OF ps', of advanceId2] row
  have total: "total_paid advanceId2 db2' = total_paid advanceId2 db2 + round_scale_2 amount2"
    by simp
  have "total_paid advanceId2 db2' \<le> a" if "stored_scale db2"
    using rounded_payment_within[OF that _ a] find_SomeD[OF f] total by simp
  with f a ps' row total show
    "\<exists>ca a row. find (\<lambda>r. ca_id r = Some advanceId2) (cash_advances db2) = Some ca \<and>
       ca_amount ca = Some a \<and> total_paid advanceId2 db2 + amount2 \<le> a \<and>
       payments db2' = payments db2 @ [row] \<and>
       p_cash_advance_id row = Some advanceId2 \<and>
       p_amount row = Some (round_scale_2 amount2) \<and>
       total_paid advanceId2 db2' = total_paid advanceId2 db2 + round_scale_2 amount2 \<and>
       (stored_scale db2 \<longrightarrow> total_paid advanceId2 db2' \<le> a)"
    by blast
next
  assume "schema_init env3 = Inr db3"
  then have "ledger_consistent db3"
    by (auto simp: schema_init_value ledger_consistent_def within_principal_def stored_scale_def
        empty_db_def)
  then have "ledger_consistent (serve calls db3)" by (rule serve_ledger_consistent)
  then show "within_principal (serve calls db3)" by (simp add: ledger_consistent_def)
qed

theorem payments_never_exceed_principal_witness:
  "(find (\<lambda>r. ca_id r = Some 300) (cash_advances settled) = Some (hd (cash_advances settled)) \<and>
    ca_status (hd (cash_advances settled)) = Some (status_text PAID) \<and>
    ca_amount (hd (cash_advances settled)) = Some 1000 \<and>
    total_paid 300 settled = 1000 \<and>
    recordPayment (session 500) 300 200 SALARY_DEDUCTION None 100 approved =
      Inr (commit (recordPayment (session 500) 300 200 SALARY_DEDUCTION None 100 approved)
             empty_db) \<and>
    stored_scale approved \<and>
    schema_init (session 100) = Inr seeded) \<and>
   recordPayment (session 700) 300 1 CASH None 100 settled = Inl BalanceError \<and>
   payments (commit (recordPayment (session 700) 300 1 CASH None 100 settled) settled) =
     payments settled \<and>
   within_principal (serve scenario seeded)"
proof -
  have "(0::numeric) < 1" "(1000::numeric) < 1000 + 1" by simp_all
  with payments_never_exceed_principal
    [where advanceId = 300 and db = settled and ca = "hd (cash_advances settled)"
       and amount = 1 and a = 1000 and env = "session 700" and type = CASH
       and reference = None and recordedBy = 100
       and ?env2.0 = "session 500" and ?advanceId2.0 = 300 and ?amount2.0 = 200
       and ?type2.0 = SALARY_DEDUCTION and ?reference2.0 = None and ?recordedBy2.0 = 100
       and ?db2.0 = approved
       and ?db2' = "commit (recordPayment (session 500) 300 200 SALARY_DEDUCTION None 100
            approved) empty_db"
       and ?env3.0 = "session 100" and ?db3.0 = seeded and calls = scenario]
    scenario_steps(1,5,8,9,10,11) scenario_scale
  show ?thesis by (simp add: commit_def)
qed

end
